theory Spec2Isabelle
  imports Main "HOL-Library.Word"
begin

unbundle bit_operations_syntax

section \<open>The LiteX bit-banged SPI NOR flash controller\<close>

text \<open>
  A shallow embedding of \<^verbatim>\<open>drivers/mtd/spi-nor/litex-spiflash.c\<close>. Every C function of
  the transaction engine is a HOL function of the same name that takes the hardware state and
  returns the new one. The byte-wide registers are \<open>8 word\<close>; \<open>size_t\<close> is a word of any
  width \<open>'l\<close> (32 bits on RV32, 64 bits on RV64), \<open>ssize_t\<close> its signed reading, \<open>int\<close> the
  signed reading of 32 bits, \<open>loff_t\<close> 64 bits and \<open>u32\<close> 32 bits.
\<close>

type_synonym u8 = "8 word"
type_synonym u32 = "32 word"
type_synonym loff_t = "64 word"

subsection \<open>Constants of the driver\<close>

abbreviation (input) SPIFLASH_BITBANG_OFFSET :: nat where "SPIFLASH_BITBANG_OFFSET \<equiv> 0"
abbreviation (input) SPIFLASH_MISO_OFFSET :: nat where "SPIFLASH_MISO_OFFSET \<equiv> 4"
abbreviation (input) SPIFLASH_BITBANG_EN_OFFSET :: nat where "SPIFLASH_BITBANG_EN_OFFSET \<equiv> 8"

abbreviation (input) SPIFLASH_ENABLE :: u8 where "SPIFLASH_ENABLE \<equiv> 0x01"
abbreviation (input) SPIFLASH_DISABLE :: u8 where "SPIFLASH_DISABLE \<equiv> 0x00"
abbreviation (input) CLK_ENABLE :: u8 where "CLK_ENABLE \<equiv> 0x02"
abbreviation (input) CS_ENABLE :: u8 where "CS_ENABLE \<equiv> 0x04"
abbreviation (input) MISO_MODE :: u8 where "MISO_MODE \<equiv> 0x08"

abbreviation (input) WRITE_ENABLE :: u8 where "WRITE_ENABLE \<equiv> 0x06"
abbreviation (input) READ_STATUS_REGISTER :: u8 where "READ_STATUS_REGISTER \<equiv> 0x05"
abbreviation (input) WORK_IN_PROGRESS :: u8 where "WORK_IN_PROGRESS \<equiv> 0x01"
abbreviation (input) READ_FLAG_STATUS_REGISTER :: u8 where "READ_FLAG_STATUS_REGISTER \<equiv> 0x70"
abbreviation (input) PROGRAM_ERR :: u8 where "PROGRAM_ERR \<equiv> 0x10"
abbreviation (input) ERASE_BUSY :: u8 where "ERASE_BUSY \<equiv> 0x80"
abbreviation (input) ERASE_ERR :: u8 where "ERASE_ERR \<equiv> 0x20"

abbreviation (input) TIMEOUT_ERASE_MS :: nat where "TIMEOUT_ERASE_MS \<equiv> 3000"
abbreviation (input) TIMEOUT_MS :: nat where "TIMEOUT_MS \<equiv> 50"
abbreviation (input) BIT_SHIFT :: nat where "BIT_SHIFT \<equiv> 7"
abbreviation (input) ADDRESS_SIZE :: nat where "ADDRESS_SIZE \<equiv> 3"
abbreviation (input) DUMMY_CYCLES :: nat where "DUMMY_CYCLES \<equiv> 8"

text \<open>
  Modelled from the spec: the error kinds Timeout and ProgramError are the kernel's
  \<^verbatim>\<open>ETIMEDOUT\<close> and \<^verbatim>\<open>EINVAL\<close>, declared in the errno headers outside the driver; they
  have the values of the generic errno table, and the driver returns them negated.
\<close>

abbreviation (input) ETIMEDOUT :: int where "ETIMEDOUT \<equiv> 110"
abbreviation (input) EINVAL :: int where "EINVAL \<equiv> 22"

subsection \<open>Hardware state and environment\<close>

text \<open>
  The state holds the control register (\<open>bitbang\<close>), the enable register and a log of every
  write to the control register, newest first: each entry is the value the register held before
  the write and the value written.
\<close>

record hw =
  bitbang :: u8
  bitbang_en :: u8
  log :: "(u8 \<times> u8) list"

text \<open>
  The fields of \<^verbatim>\<open>struct spi_nor\<close> the driver reads: the opcodes chosen by the flash core.
\<close>

record spi_nor =
  erase_opcode :: u8
  read_opcode :: u8
  program_opcode :: u8

text \<open>
  Modelled from the spec: the data-input register and the kernel's clock are outside the
  driver. The environment gives, for the hardware state reached so far, the byte the
  data-input register returns and the value of \<^verbatim>\<open>jiffies\<close>, the current time in ticks;
  \<^verbatim>\<open>msecs_to_jiffies\<close> is the kernel's conversion of milliseconds to ticks. Both answers
  may depend on every write to the control register so far, which the state holds in its log.
\<close>

record env =
  miso_in :: "hw \<Rightarrow> u8"
  jiffies :: "hw \<Rightarrow> nat"
  msecs_to_jiffies :: "nat \<Rightarrow> nat"

text \<open>
  Modelled from the spec: \<^verbatim>\<open>time_after(a, b)\<close> of \<^verbatim>\<open>linux/jiffies.h\<close>, true when the time
  \<open>a\<close> has exceeded \<open>b\<close>. Time is an unbounded count of ticks.
\<close>

definition time_after :: "nat \<Rightarrow> nat \<Rightarrow> bool" where
  "time_after a b = (b < a)"

text \<open>
  Modelled from the spec: \<^verbatim>\<open>litex_read8\<close> and \<^verbatim>\<open>litex_write8\<close> of \<^verbatim>\<open>linux/litex.h\<close>, on
  the register map of the device. The control register reads back the last value written, the
  data-input register is read-only, the enable register is write-only.
\<close>

definition litex_read8 :: "env \<Rightarrow> nat \<Rightarrow> hw \<Rightarrow> u8" where
  "litex_read8 e off s =
     (if off = SPIFLASH_BITBANG_OFFSET then bitbang s
      else if off = SPIFLASH_MISO_OFFSET then miso_in e s
      else 0)"

definition litex_write8 :: "nat \<Rightarrow> u8 \<Rightarrow> hw \<Rightarrow> hw" where
  "litex_write8 off v s =
     (if off = SPIFLASH_BITBANG_OFFSET then s\<lparr>bitbang := v, log := (bitbang s, v) # log s\<rparr>
      else if off = SPIFLASH_BITBANG_EN_OFFSET then s\<lparr>bitbang_en := v\<rparr>
      else s)"

subsection \<open>Control-line helpers\<close>

definition cs :: "env \<Rightarrow> u8 \<Rightarrow> hw \<Rightarrow> hw" where
  "cs e new_val s =
     (let curr_val = litex_read8 e SPIFLASH_BITBANG_OFFSET s;
          set_val = (if new_val = CS_ENABLE then curr_val OR new_val else curr_val AND new_val)
      in litex_write8 SPIFLASH_BITBANG_OFFSET set_val s)"

definition clk :: "env \<Rightarrow> u8 \<Rightarrow> hw \<Rightarrow> hw" where
  "clk e new_val s =
     (let curr_val = litex_read8 e SPIFLASH_BITBANG_OFFSET s;
          set_val = (if new_val = CLK_ENABLE then curr_val OR new_val else curr_val AND new_val)
      in litex_write8 SPIFLASH_BITBANG_OFFSET set_val s)"

definition miso_read :: "env \<Rightarrow> hw \<Rightarrow> u8" where
  "miso_read e s = litex_read8 e SPIFLASH_MISO_OFFSET s AND 0x1"

definition mosi_set :: "env \<Rightarrow> bool \<Rightarrow> hw \<Rightarrow> hw" where
  "mosi_set e mosi s =
     (let curr_val = litex_read8 e SPIFLASH_BITBANG_OFFSET s;
          set_val = (if mosi then curr_val OR 0x01 else curr_val AND NOT 0x01)
      in litex_write8 SPIFLASH_BITBANG_OFFSET set_val s)"

definition enable :: "env \<Rightarrow> u8 \<Rightarrow> hw \<Rightarrow> hw" where
  "enable e new_val s =
     (let curr_val = litex_read8 e SPIFLASH_BITBANG_OFFSET s;
          set_val = (if new_val = MISO_MODE then curr_val OR new_val else curr_val AND new_val)
      in litex_write8 SPIFLASH_BITBANG_OFFSET set_val s)"

definition initial_config :: "env \<Rightarrow> hw \<Rightarrow> hw" where
  "initial_config e s =
     litex_write8 SPIFLASH_BITBANG_EN_OFFSET SPIFLASH_ENABLE
       (enable e (NOT MISO_MODE) (cs e CS_ENABLE (clk e (NOT CLK_ENABLE) s)))"

subsection \<open>Clock pulses and bytes\<close>

text \<open>The loop \<^verbatim>\<open>for (i = 0; i < n_cycles; i++)\<close>, by recursion on the cycles left.\<close>

fun dummy_cycles :: "env \<Rightarrow> nat \<Rightarrow> hw \<Rightarrow> hw" where
  "dummy_cycles e 0 s = s"
| "dummy_cycles e (Suc n) s = dummy_cycles e n (clk e CLK_ENABLE (clk e (NOT CLK_ENABLE) s))"

text \<open>
  The loop of \<^verbatim>\<open>spi_bitbang_send\<close>, \<^verbatim>\<open>for (i = BIT_SHIFT; i >= 0; i--)\<close>: the first argument
  is \<open>i + 1\<close>, the number of bits left; \<open>c\<close> is shifted left in eight bits.
\<close>

fun send_loop :: "env \<Rightarrow> nat \<Rightarrow> u8 \<Rightarrow> hw \<Rightarrow> hw" where
  "send_loop e 0 c s = s"
| "send_loop e (Suc i) c s =
     send_loop e i (push_bit 1 c)
       (clk e CLK_ENABLE (clk e (NOT CLK_ENABLE) (mosi_set e (c AND 0x80 \<noteq> 0) s)))"

definition spi_bitbang_send :: "env \<Rightarrow> u8 \<Rightarrow> hw \<Rightarrow> hw" where
  "spi_bitbang_send e command s = send_loop e (Suc BIT_SHIFT) command s"

text \<open>
  The loop of \<^verbatim>\<open>spi_bitbang_read\<close>: in the equation for \<open>Suc i\<close> the C variable \<^verbatim>\<open>i\<close> is
  \<open>i\<close>, so the sampled bit is shifted to position \<open>i\<close>.
\<close>

fun read_loop :: "env \<Rightarrow> nat \<Rightarrow> u8 \<Rightarrow> hw \<Rightarrow> u8 \<times> hw" where
  "read_loop e 0 byte s = (byte, s)"
| "read_loop e (Suc i) byte s =
     (let s' = clk e CLK_ENABLE (clk e (NOT CLK_ENABLE) s)
      in read_loop e i (byte OR push_bit i (miso_read e s')) s')"

definition spi_bitbang_read :: "env \<Rightarrow> hw \<Rightarrow> u8 \<times> hw" where
  "spi_bitbang_read e s = read_loop e (Suc BIT_SHIFT) 0x00 s"

subsection \<open>Transaction phases\<close>

definition write_command :: "env \<Rightarrow> u8 \<Rightarrow> hw \<Rightarrow> hw" where
  "write_command e command s =
     spi_bitbang_send e command
       (cs e (NOT CS_ENABLE) (dummy_cycles e DUMMY_CYCLES (enable e (NOT MISO_MODE) s)))"

text \<open>
  \<^verbatim>\<open>addr8 = (u8 *) &addr32\<close>: the bytes of the address as they lie in memory. The LiteX SoC
  runs a little-endian RISC-V core, so \<^verbatim>\<open>addr8[i]\<close> is byte \<open>i\<close> counted from the least
  significant one.
\<close>

definition addr8 :: "u32 \<Rightarrow> nat \<Rightarrow> u8" where
  "addr8 addr32 i = ucast (drop_bit (8 * i) addr32)"

text \<open>\<^verbatim>\<open>for (i = ADDRESS_SIZE - 1; i >= 0; i--)\<close>: the first argument is \<open>i + 1\<close>.\<close>

fun address_loop :: "env \<Rightarrow> nat \<Rightarrow> u32 \<Rightarrow> hw \<Rightarrow> hw" where
  "address_loop e 0 addr32 s = s"
| "address_loop e (Suc i) addr32 s = address_loop e i addr32 (spi_bitbang_send e (addr8 addr32 i) s)"

definition write_address :: "env \<Rightarrow> u32 \<Rightarrow> hw \<Rightarrow> hw" where
  "write_address e addr32 s = address_loop e ADDRESS_SIZE addr32 s"

text \<open>
  \<^verbatim>\<open>int len\<close>: the loops \<^verbatim>\<open>for (i = 0; i < len; i++)\<close> run \<open>nat len\<close> times, not at all for
  a negative \<open>len\<close>. \<^verbatim>\<open>data[i]\<close> is \<open>data ! i\<close>; the caller owns a buffer of \<open>len\<close> bytes.
\<close>

definition write_data :: "env \<Rightarrow> u8 list \<Rightarrow> int \<Rightarrow> hw \<Rightarrow> hw" where
  "write_data e data len s =
     fold (\<lambda>i. spi_bitbang_send e (data ! i)) [0..<nat len] (enable e (NOT MISO_MODE) s)"

fun read_bytes :: "env \<Rightarrow> nat \<Rightarrow> hw \<Rightarrow> u8 list \<times> hw" where
  "read_bytes e 0 s = ([], s)"
| "read_bytes e (Suc n) s =
     (case spi_bitbang_read e s of (b, s') \<Rightarrow>
        (case read_bytes e n s' of (bs, s'') \<Rightarrow> (b # bs, s'')))"

text \<open>The result is the contents of \<^verbatim>\<open>buffer[0 .. len - 1]\<close> after the call.\<close>

definition read_data :: "env \<Rightarrow> int \<Rightarrow> hw \<Rightarrow> u8 list \<times> hw" where
  "read_data e len s = read_bytes e (nat len) (enable e MISO_MODE s)"

text \<open>The conversion of a \<^verbatim>\<open>size_t\<close> to \<^verbatim>\<open>int\<close>: the low 32 bits, read as signed.\<close>

definition to_int :: "'l::len word \<Rightarrow> int" where
  "to_int n = sint (ucast n :: 32 word)"

subsection \<open>The operations of the controller\<close>

definition spi_flash_nor_read_reg :: "env \<Rightarrow> u8 \<Rightarrow> 'l::len word \<Rightarrow> hw \<Rightarrow> (int \<times> u8 list) \<times> hw" where
  "spi_flash_nor_read_reg e opcode len s =
     (case read_data e (to_int len) (write_command e opcode s) of
        (buf, s') \<Rightarrow> ((0, buf), cs e CS_ENABLE s'))"

definition read_status :: "env \<Rightarrow> u8 \<Rightarrow> hw \<Rightarrow> u8 \<times> hw" where
  "read_status e status_command s =
     (case spi_flash_nor_read_reg e status_command (1 :: 32 word) s of
        ((_, buf), s') \<Rightarrow> (buf ! 0, s'))"

text \<open>
  The loop of \<^verbatim>\<open>busy\<close> can run forever (a flag that never clears under a clock that never
  advances), so it is a partial function: \<open>None\<close> is the call that does not return.
\<close>

partial_function (option) busy_loop :: "env \<Rightarrow> nat \<Rightarrow> u8 \<Rightarrow> u8 \<Rightarrow> hw \<Rightarrow> (int \<times> hw) option" where
  "busy_loop e end reg flag s =
     (case read_status e reg s of
        (status, s') \<Rightarrow>
          if status AND flag \<noteq> 0
          then (if time_after (jiffies e s') end then Some (- ETIMEDOUT, s')
                else busy_loop e end reg flag s')
          else Some (0, s'))"

definition busy :: "env \<Rightarrow> nat \<Rightarrow> u8 \<Rightarrow> u8 \<Rightarrow> hw \<Rightarrow> (int \<times> hw) option" where
  "busy e time reg flag s = busy_loop e (jiffies e s + msecs_to_jiffies e time) reg flag s"

definition spi_flash_nor_erase :: "env \<Rightarrow> spi_nor \<Rightarrow> loff_t \<Rightarrow> hw \<Rightarrow> (int \<times> hw) option" where
  "spi_flash_nor_erase e nor offs s =
     (case busy e TIMEOUT_MS READ_STATUS_REGISTER WORK_IN_PROGRESS
             (cs e CS_ENABLE (write_command e WRITE_ENABLE s)) of
        None \<Rightarrow> None
      | Some (r1, s1) \<Rightarrow>
          if r1 \<noteq> 0 then Some (- ETIMEDOUT, s1)
          else
            (case busy e TIMEOUT_ERASE_MS READ_FLAG_STATUS_REGISTER ERASE_BUSY
                    (cs e CS_ENABLE
                       (write_address e (ucast offs) (write_command e (erase_opcode nor) s1))) of
               None \<Rightarrow> None
             | Some (r2, s2) \<Rightarrow>
                 if r2 \<noteq> 0 then Some (- ETIMEDOUT, s2)
                 else
                   (case busy e TIMEOUT_ERASE_MS READ_STATUS_REGISTER WORK_IN_PROGRESS s2 of
                      None \<Rightarrow> None
                    | Some (r3, s3) \<Rightarrow>
                        if r3 \<noteq> 0 then Some (- ETIMEDOUT, s3)
                        else
                          (case read_status e READ_FLAG_STATUS_REGISTER s3 of
                             (status, s4) \<Rightarrow> Some (uint (status AND ERASE_ERR), s4)))))"

definition spi_flash_nor_read ::
  "env \<Rightarrow> spi_nor \<Rightarrow> loff_t \<Rightarrow> 'l::len word \<Rightarrow> hw \<Rightarrow> (int \<times> u8 list) \<times> hw" where
  "spi_flash_nor_read e nor from length' s =
     (case read_data e (to_int length')
             (write_address e (ucast from) (write_command e (read_opcode nor) s)) of
        (buffer, s') \<Rightarrow> ((sint length', buffer), cs e CS_ENABLE s'))"

definition spi_flash_nor_write ::
  "env \<Rightarrow> spi_nor \<Rightarrow> loff_t \<Rightarrow> 'l::len word \<Rightarrow> u8 list \<Rightarrow> hw \<Rightarrow> (int \<times> hw) option" where
  "spi_flash_nor_write e nor to len buf s =
     (case busy e TIMEOUT_MS READ_STATUS_REGISTER WORK_IN_PROGRESS
             (cs e CS_ENABLE (write_command e WRITE_ENABLE s)) of
        None \<Rightarrow> None
      | Some (r1, s1) \<Rightarrow>
          if r1 \<noteq> 0 then Some (- ETIMEDOUT, s1)
          else
            (case busy e TIMEOUT_MS READ_STATUS_REGISTER WORK_IN_PROGRESS
                    (cs e CS_ENABLE
                       (write_data e buf (to_int len)
                          (write_address e (ucast to)
                             (write_command e (program_opcode nor) s1)))) of
               None \<Rightarrow> None
             | Some (r2, s2) \<Rightarrow>
                 if r2 \<noteq> 0 then Some (- ETIMEDOUT, s2)
                 else
                   (case read_status e READ_FLAG_STATUS_REGISTER s2 of
                      (status, s3) \<Rightarrow>
                        if status AND PROGRAM_ERR \<noteq> 0 then Some (- EINVAL, s3)
                        else Some (sint len, s3))))"

definition spi_flash_nor_write_reg ::
  "env \<Rightarrow> u8 \<Rightarrow> u8 list \<Rightarrow> 'l::len word \<Rightarrow> hw \<Rightarrow> (int \<times> hw) option" where
  "spi_flash_nor_write_reg e opcode buf len s =
     (case busy e TIMEOUT_MS READ_STATUS_REGISTER WORK_IN_PROGRESS
             (cs e CS_ENABLE (write_command e WRITE_ENABLE s)) of
        None \<Rightarrow> None
      | Some (r1, s1) \<Rightarrow>
          if r1 \<noteq> 0 then Some (- ETIMEDOUT, s1)
          else
            (case busy e TIMEOUT_MS READ_STATUS_REGISTER WORK_IN_PROGRESS
                    (cs e CS_ENABLE (write_data e buf (to_int len) (write_command e opcode s1))) of
               None \<Rightarrow> None
             | Some (r2, s2) \<Rightarrow>
                 if r2 \<noteq> 0 then Some (- ETIMEDOUT, s2) else Some (0, s2)))"

subsection \<open>The bus as the flash device sees it\<close>

text \<open>
  What a write to the control register means on the wires, from the value before and the value
  written: a falling chip-select (bit 2) selects the device, a rising one deselects it; a rising
  clock (bit 1) is an idle pulse while the device is deselected, and transfers one bit while it is
  selected: towards the device, with the value of the data-out line (bit 0), when capture mode
  (bit 3) is off, and from the device when it is on.
\<close>

datatype wire = Idle | Select | Deselect | Out bool | In

definition observe :: "u8 \<times> u8 \<Rightarrow> wire list" where
  "observe w =
     (case w of (p, v) \<Rightarrow>
        (if bit p 2 \<and> \<not> bit v 2 then [Select]
         else if \<not> bit p 2 \<and> bit v 2 then [Deselect] else []) @
        (if \<not> bit p 1 \<and> bit v 1
         then [if bit v 2 then Idle else if bit v 3 then In else Out (bit v 0)]
         else []))"

text \<open>The bus events of the whole log, oldest first.\<close>

definition wire :: "hw \<Rightarrow> wire list" where
  "wire s = concat (map observe (rev (log s)))"

text \<open>One byte towards the device, most significant bit first.\<close>

definition byte_out :: "u8 \<Rightarrow> wire list" where
  "byte_out c = map (\<lambda>i. Out (bit c (7 - i))) [0..<8]"

text \<open>
  One transaction: eight idle pulses, select, the bytes \<open>out\<close> towards the device, \<open>n\<close> bytes
  from the device, deselect.
\<close>

definition txn :: "u8 list \<Rightarrow> nat \<Rightarrow> wire list" where
  "txn out n =
     replicate 8 Idle @ [Select] @ concat (map byte_out out) @ replicate (8 * n) In @ [Deselect]"

text \<open>
  The event of one clock pulse: decided by the chip-select and capture bits of the register, with
  \<open>b\<close> the level of the data-out line.
\<close>

definition clocked :: "u8 \<Rightarrow> bool \<Rightarrow> wire" where
  "clocked x b = (if bit x 2 then Idle else if bit x 3 then In else Out b)"

text \<open>The state after one status-read transaction of the busy loop.\<close>

definition poll :: "env \<Rightarrow> u8 \<Rightarrow> hw \<Rightarrow> hw" where
  "poll e reg s = snd (read_status e reg s)"

text \<open>The values written to the control register, oldest first.\<close>

definition writes :: "hw \<Rightarrow> u8 list" where
  "writes s = rev (map snd (log s))"

text \<open>
  \<open>bracketed s s'\<close>: from \<open>s\<close> to \<open>s'\<close> the bus has seen one or more whole transactions, each
  with at least its opcode byte inside the select and deselect, and nothing else; at \<open>s'\<close> the
  chip-select bit is set, the device deselected.
\<close>

definition transactions :: "(u8 list \<times> nat) list \<Rightarrow> wire list" where
  "transactions ts = concat (map (\<lambda>t. txn (fst t) (snd t)) ts)"

definition bracketed :: "hw \<Rightarrow> hw \<Rightarrow> bool" where
  "bracketed s s' =
     (bit (bitbang s') 2 \<and>
      (\<exists>ts. ts \<noteq> [] \<and> (\<forall>t\<in>set ts. fst t \<noteq> []) \<and> wire s' = wire s @ transactions ts))"

subsection \<open>What the busy loop observes\<close>

text \<open>
  \<open>polls_busy\<close>: each of the first \<open>k\<close> status reads found the flag set, and the clock read
  after it had not passed the deadline \<open>end\<close>. \<open>poll_result\<close>: \<open>y\<close> is the outcome of the
  status read number \<open>k + 1\<close>: the state after it, and 0 when the flag is clear,
  \<open>-ETIMEDOUT\<close> when the flag is set and the clock has passed the deadline.
\<close>

definition polls_busy :: "env \<Rightarrow> nat \<Rightarrow> u8 \<Rightarrow> u8 \<Rightarrow> hw \<Rightarrow> nat \<Rightarrow> bool" where
  "polls_busy e end reg flag s k =
     (\<forall>i<k. fst (read_status e reg ((poll e reg ^^ i) s)) AND flag \<noteq> 0 \<and>
            \<not> time_after (jiffies e ((poll e reg ^^ Suc i) s)) end)"

definition poll_result :: "env \<Rightarrow> nat \<Rightarrow> u8 \<Rightarrow> u8 \<Rightarrow> hw \<Rightarrow> nat \<Rightarrow> int \<times> hw \<Rightarrow> bool" where
  "poll_result e end reg flag s k y =
     (snd y = (poll e reg ^^ Suc k) s \<and>
      (if fst (read_status e reg ((poll e reg ^^ k) s)) AND flag = 0 then fst y = 0
       else fst y = - ETIMEDOUT \<and> time_after (jiffies e (snd y)) end))"

text \<open>
  \<open>waited e time reg flag s k y\<close>: a wait that starts in the state \<open>s\<close>, with its deadline
  taken there as the clock plus \<open>time\<close> milliseconds, ends at its status read number \<open>k + 1\<close>
  with the outcome \<open>y\<close>. The \<open>k\<close> status reads before found the flag set and the clock not past
  the deadline; the last one found the flag clear (result 0) or found it set with the clock past
  the deadline (result \<open>-ETIMEDOUT\<close>).
\<close>

definition waited :: "env \<Rightarrow> nat \<Rightarrow> u8 \<Rightarrow> u8 \<Rightarrow> hw \<Rightarrow> nat \<Rightarrow> int \<times> hw \<Rightarrow> bool" where
  "waited e time reg flag s k y =
     (polls_busy e (jiffies e s + msecs_to_jiffies e time) reg flag s k \<and>
      poll_result e (jiffies e s + msecs_to_jiffies e time) reg flag s k y)"

subsection \<open>Concrete devices and states\<close>

text \<open>
  The registers at rest, as \<open>initial_config\<close> leaves them: clock low, device deselected,
  capture mode off, bit-banging enabled.
\<close>

definition idle_hw :: hw where
  "idle_hw = \<lparr>bitbang = 4, bitbang_en = 1, log = []\<rparr>"

text \<open>Opcodes of a common SPI NOR flash: sector erase, read, page program.\<close>

definition nor0 :: spi_nor where
  "nor0 = \<lparr>erase_opcode = 0xD8, read_opcode = 0x03, program_opcode = 0x02\<rparr>"

text \<open>A device whose data line is always low, under a clock that stands still.\<close>

definition quiet_env :: env where
  "quiet_env = \<lparr>miso_in = (\<lambda>s. 0), jiffies = (\<lambda>s. 0), msecs_to_jiffies = (\<lambda>m. m)\<rparr>"

text \<open>
  A device that drives its data line high during the first status read (the first 60 register
  writes) and low afterwards; the clock advances one tick every 100 register writes.
\<close>

definition slow_env :: env where
  "slow_env =
     \<lparr>miso_in = (\<lambda>s. if length (log s) < 60 then 1 else 0),
      jiffies = (\<lambda>s. length (log s) div 100), msecs_to_jiffies = (\<lambda>m. m)\<rparr>"

text \<open>
  A device whose data line is always high, so that every flag reads as set; the clock advances
  one tick every register write.
\<close>

definition stuck_env :: env where
  "stuck_env =
     \<lparr>miso_in = (\<lambda>s. 1), jiffies = (\<lambda>s. length (log s)), msecs_to_jiffies = (\<lambda>m. m)\<rparr>"

text \<open>
  A loopback wire: the data-input register shows the level of the data-out line, bit 0 of the
  control register.
\<close>

definition direct_loopback :: env where
  "direct_loopback =
     \<lparr>miso_in = (\<lambda>s. bitbang s AND 1), jiffies = (\<lambda>s. 0), msecs_to_jiffies = (\<lambda>m. m)\<rparr>"

text \<open>
  A loopback through an eight-stage shift register clocked by the rising edge of the clock line:
  \<open>rising_bits\<close> lists the data-out levels at the rising edges of the log, newest first, and
  the data-input register shows the level latched eight rising edges before the latest one.
\<close>

definition rising_bits :: "(u8 \<times> u8) list \<Rightarrow> bool list" where
  "rising_bits l = map (\<lambda>w. bit (snd w) 0) (filter (\<lambda>w. \<not> bit (fst w) 1 \<and> bit (snd w) 1) l)"

definition delay_loopback :: env where
  "delay_loopback =
     \<lparr>miso_in = (\<lambda>s. case drop 8 (rising_bits (log s)) of [] \<Rightarrow> 0 | b # _ \<Rightarrow> of_bool b),
      jiffies = (\<lambda>s. 0), msecs_to_jiffies = (\<lambda>m. m)\<rparr>"

text \<open>
  A device that raises its data line at one moment only, when 387 register writes have been
  logged: in an erase from the registers at rest in which no wait repeats, that is the sample of
  bit 5, the erase-error flag, of the last flag-status read.
\<close>

definition erase_fail_env :: env where
  "erase_fail_env =
     \<lparr>miso_in = (\<lambda>s. if length (log s) = 387 then 1 else 0),
      jiffies = (\<lambda>s. 0), msecs_to_jiffies = (\<lambda>m. m)\<rparr>"

text \<open>
  The same for a program of two bytes: at 378 register writes the sample is bit 4, the
  program-error flag, of the flag-status read.
\<close>

definition program_fail_env :: env where
  "program_fail_env =
     \<lparr>miso_in = (\<lambda>s. if length (log s) = 378 then 1 else 0),
      jiffies = (\<lambda>s. 0), msecs_to_jiffies = (\<lambda>m. m)\<rparr>"

text \<open>
  A device that is still busy at the first status read after a WRITE-ENABLE from the registers
  at rest: its data line is high during the first 103 register writes, the 43 of the
  WRITE-ENABLE transaction and the 60 of one status read, and low afterwards; the clock advances
  one tick every 100 register writes.
\<close>

definition settling_env :: env where
  "settling_env =
     \<lparr>miso_in = (\<lambda>s. if length (log s) < 103 then 1 else 0),
      jiffies = (\<lambda>s. length (log s) div 100), msecs_to_jiffies = (\<lambda>m. m)\<rparr>"

text \<open>
  A device whose erase takes time, under a clock of one tick per register write: in an erase from
  the registers at rest its data line is high during the first flag-status read of the wait on
  the erase-busy flag (register writes 218 to 277) and during the first status read of the wait
  on the work-in-progress flag that follows (338 to 397). Each of these status reads takes 60
  ticks, more than 50 ms and less than 3000 ms.
\<close>

definition erasing_env :: env where
  "erasing_env =
     \<lparr>miso_in = (\<lambda>s. if 218 \<le> length (log s) \<and> length (log s) < 278 \<or>
                         338 \<le> length (log s) \<and> length (log s) < 398 then 1 else 0),
      jiffies = (\<lambda>s. length (log s)), msecs_to_jiffies = (\<lambda>m. m)\<rparr>"

text \<open>
  A device whose erase never ends: the data line is high from the end of the erase command on
  (218 register writes). The clock has one tick per register write and 20 ticks per second, so
  that 3000 ms are 60 ticks, the time of one status read.
\<close>

definition erase_stuck_env :: env where
  "erase_stuck_env =
     \<lparr>miso_in = (\<lambda>s. if 218 \<le> length (log s) then 1 else 0),
      jiffies = (\<lambda>s. length (log s)), msecs_to_jiffies = (\<lambda>m. m div 50)\<rparr>"

text \<open>
  A device that is busy during the first status read after a program command of two bytes from
  the registers at rest (register writes 267 to 326), under a clock of one tick every 100
  register writes.
\<close>

definition programming_env :: env where
  "programming_env =
     \<lparr>miso_in = (\<lambda>s. if 267 \<le> length (log s) \<and> length (log s) < 327 then 1 else 0),
      jiffies = (\<lambda>s. length (log s) div 100), msecs_to_jiffies = (\<lambda>m. m)\<rparr>"

text \<open>
  A device whose program of two bytes never ends: the data line is high from the end of the
  program command on (267 register writes), under a clock of one tick per register write.
\<close>

definition program_stuck_env :: env where
  "program_stuck_env =
     \<lparr>miso_in = (\<lambda>s. if 267 \<le> length (log s) then 1 else 0),
      jiffies = (\<lambda>s. length (log s)), msecs_to_jiffies = (\<lambda>m. m)\<rparr>"

section \<open>Properties\<close>

subsection \<open>Register writes\<close>

lemma bitbang_write [simp]: "bitbang (litex_write8 0 v s) = v"
  and log_write [simp]: "log (litex_write8 0 v s) = (bitbang s, v) # log s"
  and en_write [simp]: "bitbang_en (litex_write8 0 v s) = bitbang_en s"
  by (simp_all add: litex_write8_def)

lemma wire_write [simp]: "wire (litex_write8 0 v s) = wire s @ observe (bitbang s, v)"
  by (simp add: wire_def)

lemma clk_high: "clk e 2 s = litex_write8 0 (set_bit 1 (bitbang s)) s"
  and clk_low: "clk e (- 3) s = litex_write8 0 (unset_bit 1 (bitbang s)) s"
  by (simp_all add: clk_def litex_read8_def Let_def set_bit_eq_or unset_bit_eq_and_not)

lemma cs_high: "cs e 4 s = litex_write8 0 (set_bit 2 (bitbang s)) s"
  and cs_low: "cs e (- 5) s = litex_write8 0 (unset_bit 2 (bitbang s)) s"
  by (simp_all add: cs_def litex_read8_def Let_def set_bit_eq_or unset_bit_eq_and_not)

lemma enable_on: "enable e 8 s = litex_write8 0 (set_bit 3 (bitbang s)) s"
  and enable_off: "enable e (- 9) s = litex_write8 0 (unset_bit 3 (bitbang s)) s"
  by (simp_all add: enable_def litex_read8_def Let_def set_bit_eq_or unset_bit_eq_and_not)

lemma mosi_set_eq:
  "mosi_set e b s = litex_write8 0 (if b then set_bit 0 (bitbang s) else unset_bit 0 (bitbang s)) s"
  by (simp add: mosi_set_def litex_read8_def Let_def set_bit_eq_or unset_bit_eq_and_not)

lemmas prims = clk_high clk_low cs_high cs_low enable_on enable_off mosi_set_eq

lemma pulse_wire:
  "wire (clk e 2 (clk e (- 3) s)) = wire s @ [clocked (bitbang s) (bit (bitbang s) 0)]"
  by (simp add: prims observe_def bit_simps clocked_def)

lemma pulse_bits:
  "bit (bitbang (clk e 2 (clk e (- 3) s))) k = (k = 1 \<or> bit (bitbang s) k)"
  by (auto simp add: prims bit_simps dest: bit_imp_le_length)

lemma clocked_cong: "bit x 2 = bit y 2 \<Longrightarrow> bit x 3 = bit y 3 \<Longrightarrow> clocked x b = clocked y b"
  by (simp add: clocked_def)

lemma dummy_cycles_bits:
  "k \<noteq> 1 \<Longrightarrow> bit (bitbang (dummy_cycles e n s)) k = bit (bitbang s) k"
  by (induction n arbitrary: s) (simp_all add: pulse_bits)

lemma dummy_cycles_wire:
  "wire (dummy_cycles e n s) = wire s @ replicate n (clocked (bitbang s) (bit (bitbang s) 0))"
proof (induction n arbitrary: s)
  case 0
  then show ?case by simp
next
  case (Suc n)
  let ?s = "clk e 2 (clk e (- 3) s)"
  have "clocked (bitbang ?s) (bit (bitbang ?s) 0) = clocked (bitbang s) (bit (bitbang s) 0)"
    by (simp add: clocked_def pulse_bits)
  with Suc.IH [of ?s] show ?case
    by (simp add: pulse_wire replicate_append_same)
qed

lemma msb_test: "(c AND 0x80 \<noteq> 0) = bit (c :: u8) 7"
proof -
  have "(128 :: u8) = push_bit 7 1" by simp
  then show ?thesis by (simp only: bit_iff_and_push_bit_not_eq_0)
qed

lemma bit_shl1: "i < 7 \<Longrightarrow> bit (c * 2 :: u8) (7 - i) = bit c (6 - i)"
proof -
  assume "i < 7"
  then have "1 \<le> 7 - i" and "7 - i < 8" and "7 - i - 1 = 6 - i" by simp_all
  moreover have "c * 2 = push_bit 1 c" by simp
  ultimately show ?thesis by (simp only: bit_push_bit_iff possible_bit_word) simp
qed

lemma send_step_wire:
  "wire (clk e 2 (clk e (- 3) (mosi_set e b s))) = wire s @ [clocked (bitbang s) b]"
  by (simp add: prims observe_def bit_simps clocked_def)

lemma send_step_bits:
  "bit (bitbang (clk e 2 (clk e (- 3) (mosi_set e b s)))) k =
     (if k = 0 then b else k = 1 \<or> bit (bitbang s) k)"
  by (auto simp add: prims bit_simps dest: bit_imp_le_length)

lemma send_loop_bits:
  "k \<noteq> 0 \<Longrightarrow> k \<noteq> 1 \<Longrightarrow> bit (bitbang (send_loop e n c s)) k = bit (bitbang s) k"
  by (induction n arbitrary: s c) (simp_all add: send_step_bits)

lemma send_loop_wire:
  "n \<le> 8 \<Longrightarrow>
   wire (send_loop e n c s) = wire s @ map (\<lambda>i. clocked (bitbang s) (bit c (7 - i))) [0..<n]"
proof (induction n arbitrary: s c)
  case 0
  then show ?case by simp
next
  case (Suc n)
  let ?s = "clk e 2 (clk e (- 3) (mosi_set e (c AND 0x80 \<noteq> 0) s))"
  have same: "clocked (bitbang ?s) = clocked (bitbang s)"
    by (rule ext) (simp add: clocked_def send_step_bits)
  have "wire (send_loop e (Suc n) c s) = wire (send_loop e n (push_bit 1 c) ?s)"
    by simp
  also have "\<dots> = wire ?s @ map (\<lambda>i. clocked (bitbang s) (bit (push_bit 1 c) (7 - i))) [0..<n]"
    using Suc.IH [of "push_bit 1 c" ?s] Suc.prems by (simp add: same)
  also have "\<dots> = wire ?s @ map (\<lambda>i. clocked (bitbang s) (bit c (7 - Suc i))) [0..<n]"
    using Suc.prems by (simp add: bit_shl1)
  also have "\<dots> = wire s @ clocked (bitbang s) (bit c 7) #
                 map ((\<lambda>i. clocked (bitbang s) (bit c (7 - i))) \<circ> Suc) [0..<n]"
    by (simp add: send_step_wire msb_test comp_def)
  also have "\<dots> = wire s @ map (\<lambda>i. clocked (bitbang s) (bit c (7 - i))) (0 # map Suc [0..<n])"
    by simp
  also have "0 # map Suc [0..<n] = [0..<Suc n]"
    by (simp add: upt_conv_Cons map_Suc_upt del: upt_Suc)
  finally show ?case .
qed

subsection \<open>Loops and transaction phases on the bus\<close>

lemma read_loop_bits:
  "bit (bitbang (snd (read_loop e n byte s))) k = ((n \<noteq> 0 \<and> k = 1) \<or> bit (bitbang s) k)"
  by (induction n arbitrary: s byte) (auto simp add: pulse_bits Let_def)

lemma read_loop_wire:
  "wire (snd (read_loop e n byte s)) = wire s @ replicate n (clocked (bitbang s) (bit (bitbang s) 0))"
proof (induction n arbitrary: s byte)
  case 0
  then show ?case by simp
next
  case (Suc n)
  let ?s = "clk e 2 (clk e (- 3) s)"
  have "clocked (bitbang ?s) (bit (bitbang ?s) 0) = clocked (bitbang s) (bit (bitbang s) 0)"
    by (simp add: clocked_def pulse_bits)
  with Suc.IH [of _ ?s] show ?case
    by (simp add: pulse_wire replicate_append_same Let_def)
qed

lemma spi_bitbang_send_bits:
  "k \<noteq> 0 \<Longrightarrow> k \<noteq> 1 \<Longrightarrow> bit (bitbang (spi_bitbang_send e c s)) k = bit (bitbang s) k"
  by (simp add: spi_bitbang_send_def send_loop_bits)

lemma spi_bitbang_send_wire:
  "\<not> bit (bitbang s) 2 \<Longrightarrow> \<not> bit (bitbang s) 3 \<Longrightarrow>
   wire (spi_bitbang_send e c s) = wire s @ byte_out c"
  by (simp add: spi_bitbang_send_def send_loop_wire byte_out_def clocked_def del: send_loop.simps upt_Suc)

lemma spi_bitbang_read_bits:
  "k \<noteq> 1 \<Longrightarrow> bit (bitbang (snd (spi_bitbang_read e s))) k = bit (bitbang s) k"
  by (simp add: spi_bitbang_read_def read_loop_bits del: read_loop.simps)

lemma spi_bitbang_read_wire:
  "\<not> bit (bitbang s) 2 \<Longrightarrow> bit (bitbang s) 3 \<Longrightarrow>
   wire (snd (spi_bitbang_read e s)) = wire s @ replicate 8 In"
  by (simp add: spi_bitbang_read_def read_loop_wire clocked_def del: read_loop.simps replicate.simps)

lemma write_command_bits:
  "bit (bitbang (write_command e c s)) k =
     (if k = 0 \<or> k = 1 then bit (bitbang (write_command e c s)) k
      else if k = 2 \<or> k = 3 then False else bit (bitbang s) k)"
  by (auto simp add: write_command_def spi_bitbang_send_bits dummy_cycles_bits prims bit_simps)

lemma write_command_wire:
  "bit (bitbang s) 2 \<Longrightarrow>
   wire (write_command e c s) = wire s @ replicate 8 Idle @ [Select] @ byte_out c"
  by (simp add: write_command_def spi_bitbang_send_wire dummy_cycles_bits dummy_cycles_wire
      prims bit_simps observe_def clocked_def del: replicate.simps dummy_cycles.simps)

lemma address_loop_bits:
  "k \<noteq> 0 \<Longrightarrow> k \<noteq> 1 \<Longrightarrow> bit (bitbang (address_loop e n a s)) k = bit (bitbang s) k"
  by (induction n arbitrary: s) (simp_all add: spi_bitbang_send_bits)

lemma address_loop_wire:
  "\<not> bit (bitbang s) 2 \<Longrightarrow> \<not> bit (bitbang s) 3 \<Longrightarrow>
   wire (address_loop e n a s) = wire s @ concat (map (\<lambda>i. byte_out (addr8 a i)) (rev [0..<n]))"
  by (induction n arbitrary: s) (simp_all add: spi_bitbang_send_bits spi_bitbang_send_wire)

lemma write_address_bits:
  "k \<noteq> 0 \<Longrightarrow> k \<noteq> 1 \<Longrightarrow> bit (bitbang (write_address e a s)) k = bit (bitbang s) k"
  by (simp add: write_address_def address_loop_bits del: address_loop.simps)

lemma write_address_wire:
  "\<not> bit (bitbang s) 2 \<Longrightarrow> \<not> bit (bitbang s) 3 \<Longrightarrow>
   wire (write_address e a s) =
     wire s @ byte_out (addr8 a 2) @ byte_out (addr8 a 1) @ byte_out (addr8 a 0)"
  by (simp add: write_address_def address_loop_wire eval_nat_numeral del: address_loop.simps)

lemma send_fold_bits:
  "k \<noteq> 0 \<Longrightarrow> k \<noteq> 1 \<Longrightarrow>
   bit (bitbang (fold (\<lambda>i. spi_bitbang_send e (f i)) is s)) k = bit (bitbang s) k"
  by (induction "is" arbitrary: s) (simp_all add: spi_bitbang_send_bits)

lemma send_fold_wire:
  "\<not> bit (bitbang s) 2 \<Longrightarrow> \<not> bit (bitbang s) 3 \<Longrightarrow>
   wire (fold (\<lambda>i. spi_bitbang_send e (f i)) is s) = wire s @ concat (map (\<lambda>i. byte_out (f i)) is)"
  by (induction "is" arbitrary: s) (simp_all add: spi_bitbang_send_bits spi_bitbang_send_wire)

lemma write_data_bits:
  "bit (bitbang (write_data e data len s)) k =
     (if k = 0 \<or> k = 1 then bit (bitbang (write_data e data len s)) k
      else k \<noteq> 3 \<and> bit (bitbang s) k)"
  by (auto simp add: write_data_def send_fold_bits prims bit_simps)

lemma write_data_wire:
  "\<not> bit (bitbang s) 2 \<Longrightarrow>
   wire (write_data e data len s) = wire s @ concat (map byte_out (map ((!) data) [0..<nat len]))"
  by (simp add: write_data_def send_fold_wire prims bit_simps observe_def comp_def)

lemma read_bytes_Suc:
  "snd (read_bytes e (Suc n) s) = snd (read_bytes e n (snd (spi_bitbang_read e s)))"
  "fst (read_bytes e (Suc n) s) =
     fst (spi_bitbang_read e s) # fst (read_bytes e n (snd (spi_bitbang_read e s)))"
  by (simp_all add: split_beta)

lemma read_bytes_bits:
  "k \<noteq> 1 \<Longrightarrow> bit (bitbang (snd (read_bytes e n s))) k = bit (bitbang s) k"
  by (induction n arbitrary: s) (simp_all add: read_bytes_Suc spi_bitbang_read_bits del: read_bytes.simps(2))

lemma read_bytes_length: "length (fst (read_bytes e n s)) = n"
  by (induction n arbitrary: s) (simp_all add: read_bytes_Suc del: read_bytes.simps(2))

lemma read_bytes_wire:
  "\<not> bit (bitbang s) 2 \<Longrightarrow> bit (bitbang s) 3 \<Longrightarrow>
   wire (snd (read_bytes e n s)) = wire s @ replicate (8 * n) In"
proof (induction n arbitrary: s)
  case 0
  then show ?case by simp
next
  case (Suc n)
  let ?s = "snd (spi_bitbang_read e s)"
  have "\<not> bit (bitbang ?s) 2" "bit (bitbang ?s) 3"
    using Suc.prems by (simp_all add: spi_bitbang_read_bits)
  then have "wire (snd (read_bytes e n ?s)) = wire ?s @ replicate (8 * n) In"
    by (rule Suc.IH)
  moreover have "wire ?s = wire s @ replicate 8 In"
    using Suc.prems by (simp add: spi_bitbang_read_wire)
  moreover have "replicate 8 In @ replicate (8 * n) In = replicate (8 * Suc n) In"
    by (simp add: replicate_add [symmetric] del: replicate.simps)
  ultimately show ?case
    by (simp add: read_bytes_Suc del: replicate.simps read_bytes.simps(2))
qed

lemma read_data_bits:
  "k \<noteq> 1 \<Longrightarrow> bit (bitbang (snd (read_data e len s))) k = (k = 3 \<or> bit (bitbang s) k)"
  by (auto simp add: read_data_def read_bytes_bits prims bit_simps dest: bit_imp_le_length)

lemma read_data_length: "length (fst (read_data e len s)) = nat len"
  by (simp add: read_data_def read_bytes_length)

lemma read_data_wire:
  "\<not> bit (bitbang s) 2 \<Longrightarrow>
   wire (snd (read_data e len s)) = wire s @ replicate (8 * nat len) In"
  by (simp add: read_data_def read_bytes_wire prims bit_simps observe_def del: replicate.simps)

subsection \<open>Status reads\<close>

lemma to_int_1 [simp]: "to_int (1 :: 32 word) = 1"
  by (simp add: to_int_def)

lemma read_reg_cs: "bit (bitbang (snd (spi_flash_nor_read_reg e opcode len s))) 2"
  by (simp add: spi_flash_nor_read_reg_def split_beta prims bit_simps)

lemma read_reg_bits:
  "4 \<le> k \<Longrightarrow> bit (bitbang (snd (spi_flash_nor_read_reg e opcode len s))) k = bit (bitbang s) k"
  using write_command_bits [of e opcode s k]
  by (auto simp add: spi_flash_nor_read_reg_def split_beta prims bit_simps read_data_bits)

lemma read_reg_wire:
  "bit (bitbang s) 2 \<Longrightarrow>
   wire (snd (spi_flash_nor_read_reg e opcode len s)) = wire s @ txn [opcode] (nat (to_int len))"
  using write_command_bits [of e opcode s 2]
  by (simp add: spi_flash_nor_read_reg_def split_beta prims bit_simps observe_def txn_def
      read_data_bits read_data_wire write_command_wire del: replicate.simps)

lemma read_reg_result:
  "fst (fst (spi_flash_nor_read_reg e opcode len s)) = 0"
  "length (snd (fst (spi_flash_nor_read_reg e opcode len s))) = nat (to_int len)"
  by (simp_all add: spi_flash_nor_read_reg_def split_beta read_data_length)

lemma read_status_poll: "read_status e reg s = (fst (read_status e reg s), poll e reg s)"
  by (simp add: poll_def)

lemma poll_eq: "poll e reg s = snd (spi_flash_nor_read_reg e reg (1 :: 32 word) s)"
  by (simp add: poll_def read_status_def split_beta)

lemma poll_cs: "bit (bitbang (poll e reg s)) 2"
  by (simp add: poll_eq read_reg_cs)

lemma poll_wire: "bit (bitbang s) 2 \<Longrightarrow> wire (poll e reg s) = wire s @ txn [reg] 1"
  by (simp add: poll_eq read_reg_wire)

lemma polls_cs: "bit (bitbang s) 2 \<Longrightarrow> bit (bitbang ((poll e reg ^^ k) s)) 2"
  by (induction k) (simp_all add: poll_cs)

lemma concat_replicate_snoc: "concat (replicate k x) @ x = x @ concat (replicate k x)"
  by (induction k) simp_all

lemma polls_wire:
  "bit (bitbang s) 2 \<Longrightarrow>
   wire ((poll e reg ^^ k) s) = wire s @ concat (replicate k (txn [reg] 1))"
  by (induction k) (simp_all add: poll_wire polls_cs concat_replicate_snoc)

subsection \<open>The busy loop\<close>

lemma busy_loop_step:
  "fst (read_status e reg s) AND flag \<noteq> 0 \<Longrightarrow> \<not> time_after (jiffies e (poll e reg s)) end \<Longrightarrow>
   busy_loop e end reg flag s = busy_loop e end reg flag (poll e reg s)"
  by (subst busy_loop.simps) (simp add: split_beta poll_def)

lemma busy_loop_done:
  "fst (read_status e reg s) AND flag = 0 \<Longrightarrow>
   busy_loop e end reg flag s = Some (0, poll e reg s)"
  by (subst busy_loop.simps) (simp add: split_beta poll_def)

lemma busy_loop_timeout:
  "fst (read_status e reg s) AND flag \<noteq> 0 \<Longrightarrow> time_after (jiffies e (poll e reg s)) end \<Longrightarrow>
   busy_loop e end reg flag s = Some (- ETIMEDOUT, poll e reg s)"
  by (subst busy_loop.simps) (simp add: split_beta poll_def)

lemma busy_loop_unroll:
  "\<forall>i<k. fst (read_status e reg ((poll e reg ^^ i) s)) AND flag \<noteq> 0 \<and>
          \<not> time_after (jiffies e ((poll e reg ^^ Suc i) s)) end \<Longrightarrow>
   busy_loop e end reg flag s = busy_loop e end reg flag ((poll e reg ^^ k) s)"
proof (induction k)
  case 0
  then show ?case by simp
next
  case (Suc k)
  then have "busy_loop e end reg flag s = busy_loop e end reg flag ((poll e reg ^^ k) s)"
    by simp
  also have "\<dots> = busy_loop e end reg flag (poll e reg ((poll e reg ^^ k) s))"
    using Suc.prems by (intro busy_loop_step) simp_all
  finally show ?case by simp
qed

lemma polls_shift: "(poll e reg ^^ i) (poll e reg s) = (poll e reg ^^ Suc i) s"
  by (simp add: funpow_swap1)

lemma polls_busy_shift:
  assumes "fst (read_status e reg s) AND flag \<noteq> 0"
      and "\<not> time_after (jiffies e (poll e reg s)) end"
      and "polls_busy e end reg flag (poll e reg s) k"
  shows "polls_busy e end reg flag s (Suc k)"
  unfolding polls_busy_def
proof (intro allI impI)
  fix i assume "i < Suc k"
  show "fst (read_status e reg ((poll e reg ^^ i) s)) AND flag \<noteq> 0 \<and>
        \<not> time_after (jiffies e ((poll e reg ^^ Suc i) s)) end"
  proof (cases i)
    case 0
    with assms(1,2) show ?thesis by simp
  next
    case (Suc j)
    with \<open>i < Suc k\<close> have "j < k" by simp
    with assms(3) have "fst (read_status e reg ((poll e reg ^^ j) (poll e reg s))) AND flag \<noteq> 0 \<and>
        \<not> time_after (jiffies e ((poll e reg ^^ Suc j) (poll e reg s))) end"
      unfolding polls_busy_def by blast
    then show ?thesis unfolding Suc polls_shift .
  qed
qed

lemma poll_result_shift:
  "poll_result e end reg flag (poll e reg s) k y \<Longrightarrow> poll_result e end reg flag s (Suc k) y"
  unfolding poll_result_def polls_shift .

lemma busy_loop_sound:
  assumes "busy_loop e end reg flag s = Some y"
  shows "\<exists>k. polls_busy e end reg flag s k \<and> poll_result e end reg flag s k y"
proof -
  define P where "P = (\<lambda>e end reg flag s y.
    \<exists>k. polls_busy e end reg flag s k \<and> poll_result e end reg flag s k y)"
  have "P e end reg flag s y"
  proof (rule busy_loop.raw_induct [where P = P, OF _ assms])
    fix bl e "end" reg flag s and y :: "int \<times> hw"
    assume IH: "\<And>e end reg flag s y. bl e end reg flag s = Some y \<Longrightarrow> P e end reg flag s y"
      and body: "(case read_status e reg s of
         (status, s') \<Rightarrow>
           if status AND flag \<noteq> 0
           then if time_after (jiffies e s') end then Some (- ETIMEDOUT, s')
                else bl e end reg flag s'
           else Some (0, s')) = Some y"
    let ?st = "fst (read_status e reg s)"
    let ?s1 = "poll e reg s"
    show "P e end reg flag s y"
    proof (cases "?st AND flag = 0")
      case True
      with body have "y = (0, ?s1)" by (simp add: split_beta poll_def)
      with True have "polls_busy e end reg flag s 0 \<and> poll_result e end reg flag s 0 y"
        by (simp add: polls_busy_def poll_result_def)
      then show ?thesis unfolding P_def by blast
    next
      case False
      show ?thesis
      proof (cases "time_after (jiffies e ?s1) end")
        case True
        with False body have "y = (- ETIMEDOUT, ?s1)" by (simp add: split_beta poll_def)
        with True False have "polls_busy e end reg flag s 0 \<and> poll_result e end reg flag s 0 y"
          by (simp add: polls_busy_def poll_result_def)
        then show ?thesis unfolding P_def by blast
      next
        case late: False
        with False body have "bl e end reg flag ?s1 = Some y"
          by (simp add: split_beta poll_def)
        then have "P e end reg flag ?s1 y" by (rule IH)
        then obtain k where "polls_busy e end reg flag ?s1 k" "poll_result e end reg flag ?s1 k y"
          unfolding P_def by blast
        with False late have "polls_busy e end reg flag s (Suc k) \<and> poll_result e end reg flag s (Suc k) y"
          by (simp add: polls_busy_shift poll_result_shift)
        then show ?thesis unfolding P_def by blast
      qed
    qed
  qed
  then show ?thesis unfolding P_def .
qed

subsection \<open>Evaluation on concrete states\<close>

lemma w8: "litex_write8 0 v \<lparr>bitbang = b, bitbang_en = n, log = l\<rparr> = \<lparr>bitbang = v, bitbang_en = n, log = (b, v) # l\<rparr>"
  by (simp add: litex_write8_def)

lemma loops_numeral:
  "dummy_cycles e (numeral k) s = dummy_cycles e (pred_numeral k) (clk e 2 (clk e (- 3) s))"
  "send_loop e (numeral k) c s = send_loop e (pred_numeral k) (push_bit 1 c)
       (clk e 2 (clk e (- 3) (mosi_set e (c AND 0x80 \<noteq> 0) s)))"
  "read_loop e (numeral k) byte s =
     (let s' = clk e 2 (clk e (- 3) s)
      in read_loop e (pred_numeral k) (byte OR push_bit (pred_numeral k) (miso_read e s')) s')"
  "address_loop e (numeral k) a s = address_loop e (pred_numeral k) a (spi_bitbang_send e (addr8 a (pred_numeral k)) s)"
  "read_bytes e (numeral k) s =
     (case spi_bitbang_read e s of (b, s') \<Rightarrow>
        (case read_bytes e (pred_numeral k) s' of (bs, s'') \<Rightarrow> (b # bs, s'')))"
  by (simp_all add: numeral_eq_Suc)

lemmas run = write_command_def spi_bitbang_send_def spi_bitbang_read_def write_address_def
  write_data_def read_data_def spi_flash_nor_read_reg_def read_status_def poll_def
  prims w8 set_bit_eq_or unset_bit_eq_and_not loops_numeral miso_read_def litex_read8_def
  to_int_def Let_def

subsection \<open>The shift-register loopback\<close>

lemma pulse_log:
  "log (clk e 2 (clk e (- 3) s)) =
     (unset_bit 1 (bitbang s), set_bit 1 (unset_bit 1 (bitbang s))) #
     (bitbang s, unset_bit 1 (bitbang s)) # log s"
  by (simp add: prims)

lemma pulse_rising:
  "rising_bits (log (clk e 2 (clk e (- 3) s))) = bit (bitbang s) 0 # rising_bits (log s)"
  by (simp add: pulse_log rising_bits_def bit_simps)

lemma send_step_rising:
  "rising_bits (log (clk e 2 (clk e (- 3) (mosi_set e b s)))) = b # rising_bits (log s)"
  by (simp add: pulse_rising) (simp add: prims rising_bits_def bit_simps)

lemma send_loop_rising:
  "n \<le> 8 \<Longrightarrow>
   rising_bits (log (send_loop e n c s)) = rev (map (\<lambda>i. bit c (7 - i)) [0..<n]) @ rising_bits (log s)"
proof (induction n arbitrary: s c)
  case 0
  then show ?case by simp
next
  case (Suc n)
  let ?s = "clk e 2 (clk e (- 3) (mosi_set e (c AND 0x80 \<noteq> 0) s))"
  have "rising_bits (log (send_loop e (Suc n) c s)) = rising_bits (log (send_loop e n (push_bit 1 c) ?s))"
    by simp
  also have "\<dots> = rev (map (\<lambda>i. bit (push_bit 1 c) (7 - i)) [0..<n]) @ rising_bits (log ?s)"
    using Suc.IH [of "push_bit 1 c" ?s] Suc.prems by simp
  also have "\<dots> = rev (map (\<lambda>i. bit c (7 - Suc i)) [0..<n]) @ rising_bits (log ?s)"
    using Suc.prems by (simp add: bit_shl1)
  also have "\<dots> = rev (map ((\<lambda>i. bit c (7 - i)) \<circ> Suc) [0..<n]) @ bit c 7 # rising_bits (log s)"
    by (simp add: send_step_rising msb_test comp_def)
  also have "\<dots> = rev (map (\<lambda>i. bit c (7 - i)) (0 # map Suc [0..<n])) @ rising_bits (log s)"
    by simp
  also have "0 # map Suc [0..<n] = [0..<Suc n]"
    by (simp add: upt_conv_Cons map_Suc_upt del: upt_Suc)
  finally show ?case .
qed

lemma sent_bits: "rev (map (\<lambda>i. bit c (7 - i)) [0..<8]) = map (bit (c::u8)) [0..<8]"
  by (simp add: upt_rec eval_nat_numeral)


lemma take_bit_Suc_or:
  "take_bit (Suc n) (b::u8) = take_bit n b OR push_bit n (of_bool (bit b n))"
  by (rule bit_eqI) (auto simp add: bit_simps less_Suc_eq)



lemma drop_sent:
  "n < 8 \<Longrightarrow> length ys = 8 - n \<Longrightarrow>
   drop 8 (ys @ map (bit (b::u8)) [0..<8] @ old) = bit b n # drop (Suc n) (map (bit b) [0..<8]) @ old"
proof -
  assume n: "n < 8" and len: "length ys = 8 - n"
  let ?B = "map (bit b) [0..<8]"
  have lB: "length ?B = 8" by (simp del: upt_Suc upt_rec_numeral)
  have "drop 8 (ys @ ?B @ old) = drop (8 - length ys) (?B @ old)"
    using len by (simp only: drop_append) simp
  also have "8 - length ys = n" using len n by simp
  also have "drop n (?B @ old) = drop n ?B @ old"
    using n lB by (simp only: drop_append) simp
  also have "drop n ?B = ?B ! n # drop (Suc n) ?B"
    using n lB by (simp only: Cons_nth_drop_Suc)
  also have "?B ! n = bit b n"
    using n by (simp only: nth_map length_upt nth_upt) simp
  finally show ?thesis by (simp only: append_Cons)
qed


lemma miso_delay:
  "rising_bits (log s) = x # rest \<Longrightarrow> drop 8 (x # rest) = y # ys \<Longrightarrow>
   miso_read delay_loopback s = of_bool y"
  by (simp add: miso_read_def litex_read8_def delay_loopback_def)

lemma read_loop_delay:
  "n \<le> 8 \<Longrightarrow> rising_bits (log s) = xs @ map (bit b) [0..<8] @ old \<Longrightarrow> length xs = 8 - n \<Longrightarrow>
   fst (read_loop delay_loopback n byte s) = byte OR take_bit n b"
proof (induction n arbitrary: s byte xs)
  case 0
  then show ?case by simp
next
  case (Suc n)
  let ?s = "clk delay_loopback 2 (clk delay_loopback (- 3) s)"
  let ?x = "bit (bitbang s) 0"
  let ?B = "map (bit b) [0..<8]"
  have r: "rising_bits (log ?s) = (?x # xs) @ ?B @ old"
    using Suc.prems(2) by (simp only: pulse_rising append_Cons)
  have len: "length (?x # xs) = 8 - n"
    using Suc.prems by simp
  have n: "n < 8" using Suc.prems by simp
  have "drop 8 ((?x # xs) @ ?B @ old) = bit b n # drop (Suc n) ?B @ old"
    using n len by (rule drop_sent)
  with r have m: "miso_read delay_loopback ?s = of_bool (bit b n)"
    by (simp only: append_Cons miso_delay)
  have "fst (read_loop delay_loopback n (byte OR push_bit n (of_bool (bit b n))) ?s) =
        (byte OR push_bit n (of_bool (bit b n))) OR take_bit n b"
    using n len by (intro Suc.IH [OF _ r]) simp_all
  moreover have "fst (read_loop delay_loopback (Suc n) byte s) =
     fst (read_loop delay_loopback n (byte OR push_bit n (of_bool (bit b n))) ?s)"
    by (simp add: Let_def m)
  moreover have "(byte OR push_bit n (of_bool (bit b n))) OR take_bit n b = byte OR take_bit (Suc n) b"
    by (simp only: take_bit_Suc_or or.assoc or.commute or.left_commute)
  ultimately show ?case by (simp only:)
qed

subsection \<open>The values written by a command\<close>

lemma writes_write [simp]: "writes (litex_write8 0 v s) = writes s @ [v]"
  by (simp add: writes_def)

lemma set_unset_bit [simp]:
  "set_bit n (unset_bit n (x::u8)) = set_bit n x"
  "unset_bit n (set_bit n (x::u8)) = unset_bit n x"
  "set_bit n (set_bit n (x::u8)) = set_bit n x"
  "unset_bit n (unset_bit n (x::u8)) = unset_bit n x"
  by (rule bit_eqI, auto simp add: bit_simps)+

lemma pulse_bitbang: "bitbang (clk e 2 (clk e (- 3) s)) = set_bit 1 (bitbang s)"
  by (simp add: prims)

lemma dummy_cycles_bitbang:
  "bitbang (dummy_cycles e n s) = (if n = 0 then bitbang s else set_bit 1 (bitbang s))"
  by (induction n arbitrary: s) (simp_all add: pulse_bitbang)

lemma dummy_cycles_writes:
  "writes (dummy_cycles e n s) =
     writes s @ concat (replicate n [unset_bit 1 (bitbang s), set_bit 1 (bitbang s)])"
  by (induction n arbitrary: s) (simp_all add: prims)

lemma send_loop_writes:
  "\<exists>ws. length ws = 3 * n \<and> writes (send_loop e n c s) = writes s @ ws"
proof (induction n arbitrary: s c)
  case 0
  then show ?case by simp
next
  case (Suc n)
  let ?s = "clk e 2 (clk e (- 3) (mosi_set e (c AND 0x80 \<noteq> 0) s))"
  obtain ws where ws: "length ws = 3 * n" "writes (send_loop e n (push_bit 1 c) ?s) = writes ?s @ ws"
    using Suc.IH [of "push_bit 1 c" ?s] by blast
  obtain a b d where "writes ?s = writes s @ [a, b, d]"
    by (simp add: prims)
  with ws have "length ([a, b, d] @ ws) = 3 * Suc n \<and>
      writes (send_loop e (Suc n) c s) = writes s @ ([a, b, d] @ ws)"
    by simp
  then show ?case by blast
qed

lemma write_command_writes:
  "\<exists>ws. length ws = 24 \<and>
     writes (write_command e command s) =
       writes s @ [unset_bit 3 (bitbang s)] @
       concat (replicate 8 [unset_bit 1 (unset_bit 3 (bitbang s)), set_bit 1 (unset_bit 3 (bitbang s))]) @
       [unset_bit 2 (set_bit 1 (unset_bit 3 (bitbang s)))] @ ws"
proof -
  let ?s1 = "enable e (- 9) s"
  let ?s2 = "dummy_cycles e 8 ?s1"
  let ?s3 = "cs e (- 5) ?s2"
  obtain ws where ws: "length ws = 3 * 8" "writes (send_loop e 8 command ?s3) = writes ?s3 @ ws"
    using send_loop_writes [of 8 e command ?s3] by blast
  have "writes ?s3 = writes s @ [unset_bit 3 (bitbang s)] @
       concat (replicate 8 [unset_bit 1 (unset_bit 3 (bitbang s)), set_bit 1 (unset_bit 3 (bitbang s))]) @
       [unset_bit 2 (set_bit 1 (unset_bit 3 (bitbang s)))]"
    by (simp add: prims dummy_cycles_writes dummy_cycles_bitbang del: dummy_cycles.simps replicate.simps)
  with ws have "length ws = 24 \<and> writes (write_command e command s) =
       writes s @ [unset_bit 3 (bitbang s)] @
       concat (replicate 8 [unset_bit 1 (unset_bit 3 (bitbang s)), set_bit 1 (unset_bit 3 (bitbang s))]) @
       [unset_bit 2 (set_bit 1 (unset_bit 3 (bitbang s)))] @ ws"
    by (simp add: write_command_def spi_bitbang_send_def del: dummy_cycles.simps replicate.simps send_loop.simps)
  then show ?thesis by blast
qed

lemma addr8_byte: "addr8 a i = ucast (drop_bit (8 * i) a AND 0xFF)"
proof -
  have "(0xFF :: u32) = mask 8" by (simp add: mask_eq_exp_minus_1)
  then have "ucast (drop_bit (8 * i) a AND 0xFF) = (ucast (drop_bit (8 * i) a AND mask 8) :: u8)"
    by (simp only:)
  also have "\<dots> = ucast (drop_bit (8 * i) a)"
    by (intro bit_eqI) (auto simp add: bit_simps)
  finally show ?thesis by (simp add: addr8_def)
qed

subsection \<open>The data read\<close>

lemma command_address_wire:
  assumes "bit (bitbang s) 2"
  shows "wire (write_address e a (write_command e c s)) =
           wire s @ replicate 8 Idle @ [Select] @
           concat (map byte_out [c, addr8 a 2, addr8 a 1, addr8 a 0])"
    and "\<not> bit (bitbang (write_address e a (write_command e c s))) 2"
    and "\<not> bit (bitbang (write_address e a (write_command e c s))) 3"
proof -
  have b: "\<not> bit (bitbang (write_command e c s)) 2" "\<not> bit (bitbang (write_command e c s)) 3"
    using write_command_bits [where e = e and c = c and s = s and k = 2]
      write_command_bits [where e = e and c = c and s = s and k = 3] by simp_all
  then show "wire (write_address e a (write_command e c s)) =
           wire s @ replicate 8 Idle @ [Select] @
           concat (map byte_out [c, addr8 a 2, addr8 a 1, addr8 a 0])"
    using assms by (simp add: write_address_wire write_command_wire del: replicate.simps)
  from b show "\<not> bit (bitbang (write_address e a (write_command e c s))) 2"
    and "\<not> bit (bitbang (write_address e a (write_command e c s))) 3"
    by (simp_all add: write_address_bits)
qed

lemma read_wire:
  assumes "bit (bitbang s) 2"
  shows "wire (snd (spi_flash_nor_read e nor from len s)) =
     wire s @ txn [read_opcode nor, addr8 (ucast from) 2, addr8 (ucast from) 1, addr8 (ucast from) 0]
       (nat (to_int len))"
  using command_address_wire [OF assms, of e "ucast from" "read_opcode nor"]
  by (simp add: spi_flash_nor_read_def split_beta prims observe_def bit_simps txn_def
      read_data_wire read_data_bits del: replicate.simps)

lemma sint_nonneg_uint:
  fixes w :: "'a::len word"
  assumes "0 \<le> sint w"
  shows "sint w = uint w"
proof -
  have "sint w < 2 ^ (LENGTH('a) - 1)" by (rule sint_lt)
  also have "(2::int) ^ (LENGTH('a) - 1) \<le> 2 ^ LENGTH('a)" by simp
  finally have "take_bit LENGTH('a) (sint w) = sint w"
    using assms by (intro take_bit_int_eq_self) simp_all
  then show ?thesis by (simp add: uint_sint [of w])
qed

lemma read_cs: "bit (bitbang (snd (spi_flash_nor_read e nor from len s))) 2"
  by (simp add: spi_flash_nor_read_def split_beta prims bit_simps)

lemma read_result:
  "fst (fst (spi_flash_nor_read e nor from len s)) = sint len"
  "length (snd (fst (spi_flash_nor_read e nor from len s))) = nat (to_int len)"
  by (simp_all add: spi_flash_nor_read_def split_beta read_data_length)

subsection \<open>Whole transactions\<close>

lemma command_txn:
  assumes "bit (bitbang s) 2"
  shows "wire (cs e 4 (write_command e c s)) = wire s @ txn [c] 0"
  using assms write_command_bits [where e = e and c = c and s = s and k = 2]
  by (simp add: prims observe_def bit_simps txn_def write_command_wire del: replicate.simps)

lemma command_address_txn:
  assumes "bit (bitbang s) 2"
  shows "wire (cs e 4 (write_address e a (write_command e c s))) =
           wire s @ txn [c, addr8 a 2, addr8 a 1, addr8 a 0] 0"
  using command_address_wire [OF assms, of e a c]
  by (simp add: prims observe_def bit_simps txn_def del: replicate.simps)

lemma command_address_data_txn:
  assumes "bit (bitbang s) 2"
  shows "wire (cs e 4 (write_data e buf n (write_address e a (write_command e c s)))) =
           wire s @ txn ([c, addr8 a 2, addr8 a 1, addr8 a 0] @ map ((!) buf) [0..<nat n]) 0"
  using command_address_wire [OF assms, of e a c]
    write_data_bits [where e = e and data = buf and len = n
      and s = "write_address e a (write_command e c s)" and k = 2]
  by (simp add: prims observe_def bit_simps txn_def write_data_wire del: replicate.simps)

lemma command_data_txn:
  assumes "bit (bitbang s) 2"
  shows "wire (cs e 4 (write_data e buf n (write_command e c s))) =
           wire s @ txn (c # map ((!) buf) [0..<nat n]) 0"
  using assms write_command_bits [where e = e and c = c and s = s and k = 2]
    write_data_bits [where e = e and data = buf and len = n and s = "write_command e c s" and k = 2]
  by (simp add: prims observe_def bit_simps txn_def write_data_wire write_command_wire
      del: replicate.simps)

lemma cs_high_bit: "bit (bitbang (cs e 4 s)) 2"
  by (simp add: prims bit_simps)

lemma busy_returns:
  assumes "busy e time reg flag s = Some y"
  shows "\<exists>k. snd y = (poll e reg ^^ Suc k) s" and "fst y = 0 \<or> fst y = - ETIMEDOUT"
proof -
  from assms obtain k where
    "poll_result e (jiffies e s + msecs_to_jiffies e time) reg flag s k y"
    unfolding busy_def using busy_loop_sound by blast
  then show "\<exists>k. snd y = (poll e reg ^^ Suc k) s" and "fst y = 0 \<or> fst y = - ETIMEDOUT"
    unfolding poll_result_def by (auto split: if_splits)
qed

lemma busy_cs:
  assumes "busy e time reg flag s = Some y"
  shows "bit (bitbang (snd y)) 2"
  using busy_returns(1) [OF assms] by (auto simp add: poll_cs)

lemma busy_wire:
  assumes "busy e time reg flag s = Some y" and "bit (bitbang s) 2"
  shows "\<exists>k. wire (snd y) = wire s @ concat (replicate (Suc k) (txn [reg] 1))"
  using busy_returns(1) [OF assms(1)] polls_wire [OF assms(2)] by metis

lemma bracketedI:
  "bit (bitbang s') 2 \<Longrightarrow> out \<noteq> [] \<Longrightarrow> wire s' = wire s @ txn out n \<Longrightarrow> bracketed s s'"
  unfolding bracketed_def
  by (intro conjI exI [of _ "[(out, n)]"]) (simp_all add: transactions_def)

lemma bracketed_trans:
  assumes "bracketed s s1" and "bracketed s1 s2"
  shows "bracketed s s2"
proof -
  from assms obtain ts us where
    ts: "ts \<noteq> []" "\<forall>t\<in>set ts. fst t \<noteq> []" "wire s1 = wire s @ transactions ts" and
    us: "us \<noteq> []" "\<forall>t\<in>set us. fst t \<noteq> []" "wire s2 = wire s1 @ transactions us"
    unfolding bracketed_def by blast
  have "ts @ us \<noteq> []" "\<forall>t\<in>set (ts @ us). fst t \<noteq> []"
       "wire s2 = wire s @ transactions (ts @ us)"
    using ts us by (auto simp add: transactions_def)
  with assms(2) show ?thesis unfolding bracketed_def by blast
qed

lemma bracketed_busy:
  assumes "busy e time reg flag s = Some y" and "bit (bitbang s) 2"
  shows "bracketed s (snd y)"
proof -
  from busy_wire [OF assms] obtain k where
    "wire (snd y) = wire s @ concat (replicate (Suc k) (txn [reg] 1))" by blast
  then have "wire (snd y) = wire s @ transactions (replicate (Suc k) ([reg], 1))"
    by (simp add: transactions_def map_replicate)
  moreover have "replicate (Suc k) ([reg], 1::nat) \<noteq> []"
    "\<forall>t\<in>set (replicate (Suc k) ([reg], 1::nat)). fst t \<noteq> []"
    by simp_all
  ultimately show ?thesis
    unfolding bracketed_def using busy_cs [OF assms(1)] by blast
qed

lemma bracketed_read_status:
  assumes "bit (bitbang s) 2"
  shows "bracketed s (poll e reg s)"
  using assms by (intro bracketedI [of _ "[reg]" _ 1]) (simp_all add: poll_cs poll_wire)


lemma bracketed_cs: "bracketed s s' \<Longrightarrow> bit (bitbang s') 2"
  by (simp add: bracketed_def)

lemma after_busy:
  assumes "bracketed s s0" and "busy e time reg flag s0 = Some (r, s1)"
  shows "bracketed s s1"
  using bracketed_trans [OF assms(1) bracketed_busy [OF assms(2) bracketed_cs [OF assms(1)]]]
  by simp

lemma after_status:
  assumes "bracketed s s0" and "read_status e reg s0 = (st, s1)"
  shows "bracketed s s1"
proof -
  from assms(2) have "s1 = poll e reg s0" by (simp add: poll_def)
  with bracketed_trans [OF assms(1) bracketed_read_status [OF bracketed_cs [OF assms(1)]]]
  show ?thesis by simp
qed

lemma bracketed_write_enable:
  "bit (bitbang s) 2 \<Longrightarrow> bracketed s (cs e 4 (write_command e c s))"
  by (rule bracketedI [of _ "[c]" _ 0]) (simp_all add: cs_high_bit command_txn)

lemma bracketed_read_reg:
  "bit (bitbang s) 2 \<Longrightarrow> bracketed s (snd (spi_flash_nor_read_reg e opcode len s))"
  by (rule bracketedI [of _ "[opcode]" _ "nat (to_int len)"])
     (simp_all add: read_reg_cs read_reg_wire)

lemma bracketed_read:
  "bit (bitbang s) 2 \<Longrightarrow> bracketed s (snd (spi_flash_nor_read e nor from len s))"
  by (rule bracketedI [of _ "[read_opcode nor, addr8 (ucast from) 2, addr8 (ucast from) 1,
       addr8 (ucast from) 0]" _ "nat (to_int len)"])
     (simp_all add: read_cs read_wire)

lemma bracketed_write_reg:
  assumes "bit (bitbang s) 2" and "spi_flash_nor_write_reg e opcode buf len s = Some y"
  shows "bracketed s (snd y)"
proof -
  let ?s0 = "cs e 4 (write_command e 6 s)"
  have b0: "bracketed s ?s0" using assms(1) by (rule bracketed_write_enable)
  from assms(2) obtain r1 s1 where w1: "busy e 50 5 1 ?s0 = Some (r1, s1)"
    by (auto simp add: spi_flash_nor_write_reg_def split: option.splits)
  from b0 w1 have b1: "bracketed s s1" by (rule after_busy)
  show ?thesis
  proof (cases "r1 = 0")
    case False
    with assms(2) w1 b1 show ?thesis by (auto simp add: spi_flash_nor_write_reg_def)
  next
    case True
    let ?s1' = "cs e 4 (write_data e buf (to_int len) (write_command e opcode s1))"
    have "bracketed s1 ?s1'"
      by (rule bracketedI [of _ "opcode # map ((!) buf) [0..<nat (to_int len)]" _ 0])
         (simp_all add: cs_high_bit command_data_txn bracketed_cs [OF b1])
    with b1 have b1': "bracketed s ?s1'" by (rule bracketed_trans)
    from assms(2) w1 True obtain r2 s2 where w2: "busy e 50 5 1 ?s1' = Some (r2, s2)"
      by (auto simp add: spi_flash_nor_write_reg_def split: option.splits)
    from b1' w2 have "bracketed s s2" by (rule after_busy)
    with assms(2) w1 w2 True show ?thesis
      by (auto simp add: spi_flash_nor_write_reg_def split: if_splits)
  qed
qed

lemma bracketed_write:
  assumes "bit (bitbang s) 2" and "spi_flash_nor_write e nor to len buf s = Some y"
  shows "bracketed s (snd y)"
proof -
  let ?s0 = "cs e 4 (write_command e 6 s)"
  have b0: "bracketed s ?s0" using assms(1) by (rule bracketed_write_enable)
  from assms(2) obtain r1 s1 where w1: "busy e 50 5 1 ?s0 = Some (r1, s1)"
    by (auto simp add: spi_flash_nor_write_def split: option.splits)
  from b0 w1 have b1: "bracketed s s1" by (rule after_busy)
  show ?thesis
  proof (cases "r1 = 0")
    case False
    with assms(2) w1 b1 show ?thesis by (auto simp add: spi_flash_nor_write_def)
  next
    case True
    let ?s1' = "cs e 4 (write_data e buf (to_int len)
                  (write_address e (ucast to) (write_command e (program_opcode nor) s1)))"
    have "bracketed s1 ?s1'"
      by (rule bracketedI [of _ "[program_opcode nor, addr8 (ucast to) 2, addr8 (ucast to) 1,
            addr8 (ucast to) 0] @ map ((!) buf) [0..<nat (to_int len)]" _ 0])
         (simp_all add: cs_high_bit command_address_data_txn bracketed_cs [OF b1])
    with b1 have b1': "bracketed s ?s1'" by (rule bracketed_trans)
    from assms(2) w1 True obtain r2 s2 where w2: "busy e 50 5 1 ?s1' = Some (r2, s2)"
      by (auto simp add: spi_flash_nor_write_def split: option.splits)
    from b1' w2 have b2: "bracketed s s2" by (rule after_busy)
    show ?thesis
    proof (cases "r2 = 0")
      case False
      with assms(2) w1 w2 True b2 show ?thesis by (auto simp add: spi_flash_nor_write_def)
    next
      case r2: True
      obtain st s3 where rs: "read_status e 0x70 s2 = (st, s3)" by (cases "read_status e 0x70 s2")
      from b2 rs have "bracketed s s3" by (rule after_status)
      with assms(2) w1 w2 True r2 rs show ?thesis
        by (auto simp add: spi_flash_nor_write_def split: if_splits)
    qed
  qed
qed

lemma bracketed_erase:
  assumes "bit (bitbang s) 2" and "spi_flash_nor_erase e nor offs s = Some y"
  shows "bracketed s (snd y)"
proof -
  let ?s0 = "cs e 4 (write_command e 6 s)"
  have b0: "bracketed s ?s0" using assms(1) by (rule bracketed_write_enable)
  from assms(2) obtain r1 s1 where w1: "busy e 50 5 1 ?s0 = Some (r1, s1)"
    by (auto simp add: spi_flash_nor_erase_def split: option.splits)
  from b0 w1 have b1: "bracketed s s1" by (rule after_busy)
  show ?thesis
  proof (cases "r1 = 0")
    case False
    with assms(2) w1 b1 show ?thesis by (auto simp add: spi_flash_nor_erase_def)
  next
    case True
    let ?s1' = "cs e 4 (write_address e (ucast offs) (write_command e (erase_opcode nor) s1))"
    have "bracketed s1 ?s1'"
      by (rule bracketedI [of _ "[erase_opcode nor, addr8 (ucast offs) 2, addr8 (ucast offs) 1,
            addr8 (ucast offs) 0]" _ 0])
         (simp_all add: cs_high_bit command_address_txn bracketed_cs [OF b1])
    with b1 have b1': "bracketed s ?s1'" by (rule bracketed_trans)
    from assms(2) w1 True obtain r2 s2 where w2: "busy e 3000 0x70 0x80 ?s1' = Some (r2, s2)"
      by (auto simp add: spi_flash_nor_erase_def split: option.splits)
    from b1' w2 have b2: "bracketed s s2" by (rule after_busy)
    show ?thesis
    proof (cases "r2 = 0")
      case False
      with assms(2) w1 w2 True b2 show ?thesis by (auto simp add: spi_flash_nor_erase_def)
    next
      case r2: True
      from assms(2) w1 w2 True r2 obtain r3 s3 where w3: "busy e 3000 5 1 s2 = Some (r3, s3)"
        by (auto simp add: spi_flash_nor_erase_def split: option.splits)
      from b2 w3 have b3: "bracketed s s3" by (rule after_busy)
      show ?thesis
      proof (cases "r3 = 0")
        case False
        with assms(2) w1 w2 w3 True r2 b3 show ?thesis by (auto simp add: spi_flash_nor_erase_def)
      next
        case r3: True
        obtain st s4 where rs: "read_status e 0x70 s3 = (st, s4)" by (cases "read_status e 0x70 s3")
        from b3 rs have "bracketed s s4" by (rule after_status)
        with assms(2) w1 w2 w3 True r2 r3 rs show ?thesis
          by (auto simp add: spi_flash_nor_erase_def)
      qed
    qed
  qed
qed

lemma busy_eval:
  "fst (read_status e reg s) AND flag = 0 \<Longrightarrow> busy e time reg flag s = Some (0, poll e reg s)"
  "fst (read_status e reg s) AND flag \<noteq> 0 \<Longrightarrow>
   time_after (jiffies e (poll e reg s)) (jiffies e s + msecs_to_jiffies e time) \<Longrightarrow>
   busy e time reg flag s = Some (- ETIMEDOUT, poll e reg s)"
  by (simp_all add: busy_def busy_loop_done busy_loop_timeout)

subsection \<open>The concrete devices\<close>

lemma miso_read_quiet [simp]: "miso_read quiet_env s = 0"
  by (simp add: miso_read_def litex_read8_def quiet_env_def)

lemma read_loop_quiet: "fst (read_loop quiet_env n byte s) = byte"
  by (induction n arbitrary: byte s) (simp_all add: Let_def)

lemma read_status_quiet: "fst (read_status quiet_env reg s) = 0"
  by (simp add: read_status_def spi_flash_nor_read_reg_def read_data_def split_beta
      spi_bitbang_read_def read_loop_quiet del: read_loop.simps)

lemma busy_quiet: "busy quiet_env time reg flag s = Some (0, poll quiet_env reg s)"
  by (simp add: busy_eval read_status_quiet)

lemma miso_read_stuck [simp]: "miso_read stuck_env s = 1"
  by (simp add: miso_read_def litex_read8_def stuck_env_def)

lemma read_loop_stuck: "fst (read_loop stuck_env n byte s) = byte OR mask n"
proof (induction n arbitrary: byte s)
  case 0
  then show ?case by simp
next
  case (Suc n)
  have "mask (Suc n) = (mask n OR push_bit n 1 :: u8)"
    by (rule bit_eqI) (auto simp add: bit_simps less_Suc_eq)
  with Suc show ?case
    by (simp add: Let_def or.assoc or.commute or.left_commute del: mask_Suc_0)
qed

lemma read_status_stuck: "fst (read_status stuck_env reg s) = 0xFF"
proof -
  have "(mask 8 :: u8) = 0xFF" by (simp add: mask_eq_exp_minus_1)
  then show ?thesis
    using read_loop_stuck [of 8 0]
    by (simp add: read_status_def spi_flash_nor_read_reg_def read_data_def split_beta
      spi_bitbang_read_def del: read_loop.simps)
qed

lemma stuck_first_wait:
  "busy stuck_env 50 5 1 (cs stuck_env 4 (write_command stuck_env 6 idle_hw)) =
     Some (- ETIMEDOUT, poll stuck_env 5 (cs stuck_env 4 (write_command stuck_env 6 idle_hw)))"
proof (rule busy_eval(2))
  show "fst (read_status stuck_env 5 (cs stuck_env 4 (write_command stuck_env 6 idle_hw))) AND 1 \<noteq> 0"
    by (simp add: read_status_stuck)
  have "length (log (cs stuck_env 4 (write_command stuck_env 6 idle_hw))) = 43"
    by (simp add: run idle_hw_def)
  moreover have "length (log (poll stuck_env 5 (cs stuck_env 4 (write_command stuck_env 6 idle_hw)))) = 103"
    by (simp add: run idle_hw_def stuck_env_def)
  ultimately show "time_after
     (jiffies stuck_env (poll stuck_env 5 (cs stuck_env 4 (write_command stuck_env 6 idle_hw))))
     (jiffies stuck_env (cs stuck_env 4 (write_command stuck_env 6 idle_hw)) +
      msecs_to_jiffies stuck_env 50)"
    by (simp add: time_after_def stuck_env_def)
qed

lemma to_int_small:
  fixes n :: "'l::len word"
  assumes "0 \<le> sint n" and "sint n < 2 ^ 31"
  shows "to_int n = uint n"
proof -
  have u: "uint n = sint n" using assms(1) by (simp add: sint_nonneg_uint)
  have "uint (ucast n :: 32 word) = take_bit 32 (uint n)"
    by (simp add: unsigned_ucast_eq)
  also have "\<dots> = uint n"
    using assms u by (intro take_bit_int_eq_self) simp_all
  finally have "sint (ucast n :: 32 word) = signed_take_bit 31 (uint n)"
    by (simp add: sint_uint)
  also have "\<dots> = uint n"
    using assms u by (intro signed_take_bit_int_eq_self) simp_all
  finally show ?thesis by (simp add: to_int_def)
qed

text \<open>
  The driver enters every operation with the device deselected: \<open>initial_config\<close> leaves the
  chip-select bit set, and so does every operation (\<open>read_reg_cs\<close>, \<open>read_cs\<close>,
  \<open>busy_cs\<close>, \<open>cs_high_bit\<close>).
\<close>

lemma initial_config_at_rest:
  "bit (bitbang (initial_config e s)) 2 \<and> \<not> bit (bitbang (initial_config e s)) 3 \<and>
   \<not> bit (bitbang (initial_config e s)) 1 \<and> bitbang_en (initial_config e s) = SPIFLASH_ENABLE"
  by (simp add: initial_config_def prims bit_simps litex_write8_def)

lemma write_quiet:
  "spi_flash_nor_write quiet_env nor to len buf s =
     Some (sint len,
       poll quiet_env 0x70 (poll quiet_env 5
         (cs quiet_env 4 (write_data quiet_env buf (to_int len)
            (write_address quiet_env (ucast to) (write_command quiet_env (program_opcode nor)
               (poll quiet_env 5 (cs quiet_env 4 (write_command quiet_env 6 s)))))))))"
  by (simp add: spi_flash_nor_write_def busy_quiet read_status_quiet split_beta poll_def)

lemma write_quiet_wire:
  assumes "bit (bitbang s) 2"
  shows "map_option (wire \<circ> snd) (spi_flash_nor_write quiet_env nor to len buf s) =
     Some (wire s @ txn [6] 0 @ txn [5] 1 @
           txn ([program_opcode nor, addr8 (ucast to) 2, addr8 (ucast to) 1, addr8 (ucast to) 0] @
                map ((!) buf) [0..<nat (to_int len)]) 0 @
           txn [5] 1 @ txn [0x70] 1)"
proof -
  let ?e = quiet_env
  let ?s0 = "cs ?e 4 (write_command ?e 6 s)"
  let ?s1 = "poll ?e 5 ?s0"
  let ?s1' = "cs ?e 4 (write_data ?e buf (to_int len)
     (write_address ?e (ucast to) (write_command ?e (program_opcode nor) ?s1)))"
  let ?s2 = "poll ?e 5 ?s1'"
  have c0: "bit (bitbang ?s0) 2" by (rule cs_high_bit)
  have c1: "bit (bitbang ?s1) 2" by (rule poll_cs)
  have c1': "bit (bitbang ?s1') 2" by (rule cs_high_bit)
  have c2: "bit (bitbang ?s2) 2" by (rule poll_cs)
  show ?thesis
    by (simp add: write_quiet poll_wire [OF c2] poll_wire [OF c1'] poll_wire [OF c0]
        command_address_data_txn [OF c1] command_txn [OF assms])
qed

subsection \<open>Waits and their outcomes\<close>

lemma busy_waited:
  "busy e time reg flag s = Some y \<longleftrightarrow> (\<exists>k. waited e time reg flag s k y)"
proof
  assume "busy e time reg flag s = Some y"
  then show "\<exists>k. waited e time reg flag s k y"
    unfolding busy_def waited_def by (rule busy_loop_sound)
next
  let ?end = "jiffies e s + msecs_to_jiffies e time"
  assume "\<exists>k. waited e time reg flag s k y"
  then obtain k where pb: "polls_busy e ?end reg flag s k" and pr: "poll_result e ?end reg flag s k y"
    unfolding waited_def by blast
  let ?sk = "(poll e reg ^^ k) s"
  from pb have "busy_loop e ?end reg flag s = busy_loop e ?end reg flag ?sk"
    unfolding polls_busy_def by (rule busy_loop_unroll)
  also have "\<dots> = Some y"
  proof (cases "fst (read_status e reg ?sk) AND flag = 0")
    case True
    with pr have "y = (0, poll e reg ?sk)"
      by (simp add: poll_result_def prod_eq_iff)
    with True show ?thesis by (simp add: busy_loop_done)
  next
    case False
    with pr have "y = (- ETIMEDOUT, poll e reg ?sk)" and "time_after (jiffies e (poll e reg ?sk)) ?end"
      by (auto simp add: poll_result_def prod_eq_iff)
    with False show ?thesis by (simp add: busy_loop_timeout)
  qed
  finally show "busy e time reg flag s = Some y" by (simp add: busy_def)
qed

lemma waited_state: "waited e time reg flag s k y \<Longrightarrow> snd y = (poll e reg ^^ Suc k) s"
  by (simp add: waited_def poll_result_def)

lemma waited_cs: "waited e time reg flag s k y \<Longrightarrow> bit (bitbang (snd y)) 2"
  by (simp add: waited_state poll_cs)

lemma waited_result: "waited e time reg flag s k y \<Longrightarrow> fst y = 0 \<or> fst y = - ETIMEDOUT"
  by (auto simp add: waited_def poll_result_def split: if_splits)

lemma waited_wire:
  "waited e time reg flag s k y \<Longrightarrow> bit (bitbang s) 2 \<Longrightarrow>
   wire (snd y) = wire s @ concat (replicate (Suc k) (txn [reg] 1))"
  by (simp only: waited_state polls_wire)

lemma wait_step:
  assumes cs: "bit (bitbang s) 2"
    and Q: "\<And>y1. bit (bitbang (snd y1)) 2 \<Longrightarrow> fst y1 = 0 \<or> fst y1 = - ETIMEDOUT \<Longrightarrow> Q y1 = Q' y1"
  shows "(\<exists>k y1. waited e time reg flag s k y1 \<and>
                 wire (snd y1) = wire s @ concat (replicate (Suc k) (txn [reg] 1)) \<and> Q y1) \<longleftrightarrow>
         (\<exists>y1. busy e time reg flag s = Some y1 \<and> Q' y1)"
proof
  assume "\<exists>k y1. waited e time reg flag s k y1 \<and>
                 wire (snd y1) = wire s @ concat (replicate (Suc k) (txn [reg] 1)) \<and> Q y1"
  then obtain k y1 where w: "waited e time reg flag s k y1" and q: "Q y1" by blast
  from w have "busy e time reg flag s = Some y1" unfolding busy_waited by blast
  moreover from q have "Q' y1" using Q [OF waited_cs [OF w] waited_result [OF w]] by simp
  ultimately show "\<exists>y1. busy e time reg flag s = Some y1 \<and> Q' y1" by blast
next
  assume "\<exists>y1. busy e time reg flag s = Some y1 \<and> Q' y1"
  then obtain y1 where b: "busy e time reg flag s = Some y1" and q: "Q' y1" by blast
  from b obtain k where w: "waited e time reg flag s k y1" unfolding busy_waited by blast
  from q have "Q y1" using Q [OF waited_cs [OF w] waited_result [OF w]] by simp
  with w waited_wire [OF w cs]
  show "\<exists>k y1. waited e time reg flag s k y1 \<and>
                 wire (snd y1) = wire s @ concat (replicate (Suc k) (txn [reg] 1)) \<and> Q y1"
    by blast
qed

lemma busy_case:
  "(case busy e time reg flag s of None \<Rightarrow> None
    | Some (r1, s1) \<Rightarrow> if r1 \<noteq> 0 then Some (- ETIMEDOUT, s1) else F s1) = Some y \<longleftrightarrow>
   (\<exists>y1. busy e time reg flag s = Some y1 \<and>
         (if fst y1 = - ETIMEDOUT then y = (- ETIMEDOUT, snd y1) else F (snd y1) = Some y))"
proof (cases "busy e time reg flag s")
  case None
  then show ?thesis by simp
next
  case (Some y1)
  from busy_returns(2) [OF Some] Some show ?thesis
    by (auto simp add: split_beta)
qed

lemma address_bytes:
  "addr8 a 2 = ucast (drop_bit 16 a AND 0xFF)"
  "addr8 a (Suc 0) = ucast (drop_bit 8 a AND 0xFF)"
  "addr8 a 0 = ucast (a AND 0xFF)"
  using addr8_byte [of a 2] addr8_byte [of a 1] addr8_byte [of a 0] by simp_all

lemma waited_first:
  "fst (read_status e reg s) AND flag = 0 \<Longrightarrow> waited e time reg flag s 0 (0, poll e reg s)"
  "fst (read_status e reg s) AND flag \<noteq> 0 \<Longrightarrow>
   time_after (jiffies e (poll e reg s)) (jiffies e s + msecs_to_jiffies e time) \<Longrightarrow>
   waited e time reg flag s 0 (- ETIMEDOUT, poll e reg s)"
  by (simp_all add: waited_def polls_busy_def poll_result_def)

lemma waited_second:
  "fst (read_status e reg s) AND flag \<noteq> 0 \<Longrightarrow>
   \<not> time_after (jiffies e (poll e reg s)) (jiffies e s + msecs_to_jiffies e time) \<Longrightarrow>
   fst (read_status e reg (poll e reg s)) AND flag = 0 \<Longrightarrow>
   waited e time reg flag s (Suc 0) (0, poll e reg (poll e reg s))"
  by (simp add: waited_def polls_busy_def poll_result_def)

lemma waited_second_late:
  "fst (read_status e reg s) AND flag \<noteq> 0 \<Longrightarrow>
   \<not> time_after (jiffies e (poll e reg s)) (jiffies e s + msecs_to_jiffies e time) \<Longrightarrow>
   fst (read_status e reg (poll e reg s)) AND flag \<noteq> 0 \<Longrightarrow>
   time_after (jiffies e (poll e reg (poll e reg s))) (jiffies e s + msecs_to_jiffies e time) \<Longrightarrow>
   waited e time reg flag s (Suc 0) (- ETIMEDOUT, poll e reg (poll e reg s))"
  by (simp add: waited_def polls_busy_def poll_result_def)

lemma poll_wire_once:
  "bit (bitbang s) 2 \<Longrightarrow> wire (poll e reg s) = wire s @ concat (replicate (Suc 0) (txn [reg] 1))"
  by (simp add: poll_wire)

lemma poll_wire_twice:
  "bit (bitbang s) 2 \<Longrightarrow>
   wire (poll e reg (poll e reg s)) = wire s @ concat (replicate (Suc (Suc 0)) (txn [reg] 1))"
  by (simp add: poll_wire poll_cs)

section \<open>The claims\<close>

subsection \<open>Control-register bits\<close>

text \<open>
  C1, as the code has it: bit 0 is the data-out line, set and cleared by \<open>mosi_set\<close>; bit 1 is
  the clock line; bit 2 is the active-low chip-select; bit 3 enables capture mode. Each
  control-line helper, at each argument the driver calls it with, sets or clears exactly the bit
  at that index.
\<close>

theorem control_bit_assignment:
  "bitbang (mosi_set e True s) = set_bit 0 (bitbang s) \<and>
   bitbang (mosi_set e False s) = unset_bit 0 (bitbang s) \<and>
   bitbang (clk e CLK_ENABLE s) = set_bit 1 (bitbang s) \<and>
   bitbang (clk e (NOT CLK_ENABLE) s) = unset_bit 1 (bitbang s) \<and>
   bitbang (cs e CS_ENABLE s) = set_bit 2 (bitbang s) \<and>
   bitbang (cs e (NOT CS_ENABLE) s) = unset_bit 2 (bitbang s) \<and>
   bitbang (enable e MISO_MODE s) = set_bit 3 (bitbang s) \<and>
   bitbang (enable e (NOT MISO_MODE) s) = unset_bit 3 (bitbang s)"
  by (simp add: prims)

text \<open>
  C1 as stated fails: raising the clock on the registers at rest changes bit 1 (value 2) and not
  bit 0, and bit 0 is what driving the data-out line high changes.
\<close>

theorem clock_bit_counterexample:
  "bitbang (clk quiet_env CLK_ENABLE idle_hw) XOR bitbang idle_hw = 2 \<and>
   bitbang (mosi_set quiet_env True idle_hw) XOR bitbang idle_hw = 1"
  by (simp add: run idle_hw_def)

text \<open>
  C6: every helper that changes the control register, at each argument the driver calls it with,
  reads the register, leaves every bit outside its own mask as it was, and writes the whole byte
  back in one write (one entry in the log, from the value read to the value written).
\<close>

theorem control_register_frame:
  "(bitbang (clk e CLK_ENABLE s) AND NOT CLK_ENABLE = bitbang s AND NOT CLK_ENABLE \<and>
    log (clk e CLK_ENABLE s) = (bitbang s, bitbang (clk e CLK_ENABLE s)) # log s) \<and>
   (bitbang (clk e (NOT CLK_ENABLE) s) AND NOT CLK_ENABLE = bitbang s AND NOT CLK_ENABLE \<and>
    log (clk e (NOT CLK_ENABLE) s) = (bitbang s, bitbang (clk e (NOT CLK_ENABLE) s)) # log s) \<and>
   (bitbang (cs e CS_ENABLE s) AND NOT CS_ENABLE = bitbang s AND NOT CS_ENABLE \<and>
    log (cs e CS_ENABLE s) = (bitbang s, bitbang (cs e CS_ENABLE s)) # log s) \<and>
   (bitbang (cs e (NOT CS_ENABLE) s) AND NOT CS_ENABLE = bitbang s AND NOT CS_ENABLE \<and>
    log (cs e (NOT CS_ENABLE) s) = (bitbang s, bitbang (cs e (NOT CS_ENABLE) s)) # log s) \<and>
   (bitbang (enable e MISO_MODE s) AND NOT MISO_MODE = bitbang s AND NOT MISO_MODE \<and>
    log (enable e MISO_MODE s) = (bitbang s, bitbang (enable e MISO_MODE s)) # log s) \<and>
   (bitbang (enable e (NOT MISO_MODE) s) AND NOT MISO_MODE = bitbang s AND NOT MISO_MODE \<and>
    log (enable e (NOT MISO_MODE) s) = (bitbang s, bitbang (enable e (NOT MISO_MODE) s)) # log s) \<and>
   (bitbang (mosi_set e mosi s) AND NOT 0x01 = bitbang s AND NOT 0x01 \<and>
    log (mosi_set e mosi s) = (bitbang s, bitbang (mosi_set e mosi s)) # log s)"
proof -
  have a: "(x OR m) AND NOT m = x AND NOT m" for x m :: u8
    by (rule bit_eqI) (auto simp add: bit_simps)
  have b: "(x AND NOT m) AND NOT m = x AND NOT m" for x m :: u8
    by (rule bit_eqI) (auto simp add: bit_simps)
  show ?thesis
    unfolding clk_def cs_def enable_def mosi_set_def litex_read8_def litex_write8_def Let_def
    using a [of _ 2] a [of _ 4] a [of _ 8] a [of _ 1] b [of _ 2] b [of _ 4] b [of _ 8] b [of _ 1]
    by simp
qed

subsection \<open>Bytes on the wire\<close>

text \<open>
  C4, amended: through the shift-register loopback, which presents at each clock pulse of the
  receiver the bit latched eight pulses earlier, receiving a byte right after sending \<open>b\<close>
  yields \<open>b\<close>, from any state: \<open>spi_bitbang_send\<close> drives bits 7 down to 0 and
  \<open>spi_bitbang_read\<close> places the samples at positions 7 down to 0.
\<close>

theorem loopback_roundtrip_shift_register:
  "fst (spi_bitbang_read delay_loopback (spi_bitbang_send delay_loopback b s)) = b"
proof -
  let ?s = "spi_bitbang_send delay_loopback b s"
  have "rising_bits (log ?s) = rev (map (\<lambda>i. bit b (7 - i)) [0..<8]) @ rising_bits (log s)"
    using send_loop_rising [of 8 delay_loopback b s]
    by (simp only: spi_bitbang_send_def Suc_numeral BitM.simps) simp
  then have "rising_bits (log ?s) = [] @ map (bit b) [0..<8] @ rising_bits (log s)"
    by (simp only: sent_bits append_Nil)
  then have "fst (read_loop delay_loopback 8 0 ?s) = 0 OR take_bit 8 b"
    by (rule read_loop_delay [rotated]) simp_all
  then show ?thesis
    by (simp add: spi_bitbang_read_def take_bit_word_eq_self del: read_loop.simps)
qed

text \<open>
  C4 as stated fails: when the sampled input is the last driven output bit, every sample of the
  receiver is bit 0 of the byte sent, the last bit driven. After sending 1 the byte received is
  255.
\<close>

theorem loopback_direct_counterexample:
  "fst (spi_bitbang_read direct_loopback (spi_bitbang_send direct_loopback 1 idle_hw)) = 255"
  by (simp add: run idle_hw_def direct_loopback_def)

subsection \<open>The busy-poll guard\<close>

text \<open>
  C8: \<open>busy\<close> takes its deadline once, at entry, as the clock then plus the given time, and
  then issues status reads for \<open>reg\<close>, testing \<open>flag\<close> on each byte read. It returns \<open>y\<close>
  exactly when, for some \<open>k\<close>, the first \<open>k\<close> status reads found the flag set before the
  deadline and the next one either found it clear (result 0) or found it set with the clock
  past the deadline (result \<open>-ETIMEDOUT\<close>); the state returned is the one after that status
  read. Each status read is one transaction on the bus, the opcode \<open>reg\<close> out and one byte in.
\<close>

theorem busy_poll_guard:
  "(busy e time reg flag s = Some y \<longleftrightarrow>
      (\<exists>k. polls_busy e (jiffies e s + msecs_to_jiffies e time) reg flag s k \<and>
           poll_result e (jiffies e s + msecs_to_jiffies e time) reg flag s k y)) \<and>
   (bit (bitbang s) 2 \<longrightarrow>
      (\<forall>k. wire ((poll e reg ^^ k) s) = wire s @ concat (replicate k (txn [reg] 1))))"
proof (intro conjI iffI impI allI)
  assume "busy e time reg flag s = Some y"
  then show "\<exists>k. polls_busy e (jiffies e s + msecs_to_jiffies e time) reg flag s k \<and>
          poll_result e (jiffies e s + msecs_to_jiffies e time) reg flag s k y"
    unfolding busy_def by (rule busy_loop_sound)
next
  let ?end = "jiffies e s + msecs_to_jiffies e time"
  assume "\<exists>k. polls_busy e ?end reg flag s k \<and> poll_result e ?end reg flag s k y"
  then obtain k where pb: "polls_busy e ?end reg flag s k" and pr: "poll_result e ?end reg flag s k y"
    by blast
  let ?sk = "(poll e reg ^^ k) s"
  from pb have "busy_loop e ?end reg flag s = busy_loop e ?end reg flag ?sk"
    unfolding polls_busy_def by (rule busy_loop_unroll)
  also have "\<dots> = Some y"
  proof (cases "fst (read_status e reg ?sk) AND flag = 0")
    case True
    with pr have "y = (0, poll e reg ?sk)"
      by (simp add: poll_result_def prod_eq_iff)
    with True show ?thesis by (simp add: busy_loop_done)
  next
    case False
    with pr have "y = (- ETIMEDOUT, poll e reg ?sk)" and "time_after (jiffies e (poll e reg ?sk)) ?end"
      by (auto simp add: poll_result_def prod_eq_iff)
    with False show ?thesis by (simp add: busy_loop_timeout)
  qed
  finally show "busy e time reg flag s = Some y" by (simp add: busy_def)
next
  fix k
  assume "bit (bitbang s) 2"
  then show "wire ((poll e reg ^^ k) s) = wire s @ concat (replicate k (txn [reg] 1))"
    by (rule polls_wire)
qed

text \<open>
  C8 at concrete devices: a flag that is set at the first status read and clear at the second
  gives success after two status reads; a flag that never clears gives \<open>-ETIMEDOUT\<close> at the
  first status read that ends after the deadline.
\<close>

theorem busy_poll_guard_witness:
  "fst (read_status slow_env READ_STATUS_REGISTER idle_hw) AND WORK_IN_PROGRESS \<noteq> 0 \<and>
   fst (read_status slow_env READ_STATUS_REGISTER (poll slow_env READ_STATUS_REGISTER idle_hw))
     AND WORK_IN_PROGRESS = 0 \<and>
   busy slow_env TIMEOUT_MS READ_STATUS_REGISTER WORK_IN_PROGRESS idle_hw =
     Some (0, poll slow_env READ_STATUS_REGISTER (poll slow_env READ_STATUS_REGISTER idle_hw)) \<and>
   busy stuck_env TIMEOUT_MS READ_STATUS_REGISTER WORK_IN_PROGRESS idle_hw =
     Some (- ETIMEDOUT, poll stuck_env READ_STATUS_REGISTER idle_hw) \<and>
   bit (bitbang idle_hw) 2 \<and>
   wire (poll slow_env READ_STATUS_REGISTER (poll slow_env READ_STATUS_REGISTER idle_hw)) =
     txn [READ_STATUS_REGISTER] 1 @ txn [READ_STATUS_REGISTER] 1"
proof -
  let ?s1 = "poll slow_env 5 idle_hw"
  have j: "jiffies slow_env x = length (log x) div 100" "msecs_to_jiffies slow_env m = m" for x m
    by (simp_all add: slow_env_def)
  have a: "fst (read_status slow_env 5 idle_hw) = 255"
    by (simp add: run idle_hw_def slow_env_def)
  have b: "length (log ?s1) = 60"
    by (simp add: run idle_hw_def slow_env_def)
  have c: "fst (read_status slow_env 5 ?s1) = 0"
    by (simp add: run idle_hw_def slow_env_def)
  have l0: "log idle_hw = []" by (simp add: idle_hw_def)
  have pb: "polls_busy slow_env (jiffies slow_env idle_hw + msecs_to_jiffies slow_env 50) 5 1 idle_hw (Suc 0)"
    by (simp add: polls_busy_def a b j l0 time_after_def)
  have pr: "poll_result slow_env (jiffies slow_env idle_hw + msecs_to_jiffies slow_env 50) 5 1 idle_hw (Suc 0)
              (0, poll slow_env 5 ?s1)"
    by (simp add: poll_result_def c)
  from pb pr have slow: "busy slow_env 50 5 1 idle_hw = Some (0, poll slow_env 5 ?s1)"
    unfolding busy_poll_guard [THEN conjunct1] by blast
  let ?t1 = "poll stuck_env 5 idle_hw"
  have j': "jiffies stuck_env x = length (log x)" "msecs_to_jiffies stuck_env m = m" for x m
    by (simp_all add: stuck_env_def)
  have a': "fst (read_status stuck_env 5 idle_hw) = 255"
    by (simp add: run idle_hw_def stuck_env_def)
  have b': "length (log ?t1) = 60"
    by (simp add: run idle_hw_def stuck_env_def)
  have "polls_busy stuck_env (jiffies stuck_env idle_hw + msecs_to_jiffies stuck_env 50) 5 1 idle_hw 0"
    by (simp add: polls_busy_def)
  moreover have "poll_result stuck_env (jiffies stuck_env idle_hw + msecs_to_jiffies stuck_env 50) 5 1 idle_hw 0
              (- ETIMEDOUT, ?t1)"
    by (simp add: poll_result_def a' b' j' l0 time_after_def)
  ultimately have stuck: "busy stuck_env 50 5 1 idle_hw = Some (- ETIMEDOUT, ?t1)"
    unfolding busy_poll_guard [THEN conjunct1] by blast
  have h: "bit (bitbang idle_hw) 2" by (simp add: idle_hw_def)
  have "wire ((poll slow_env 5 ^^ Suc (Suc 0)) idle_hw) =
      wire idle_hw @ concat (replicate (Suc (Suc 0)) (txn [5] 1))"
    using busy_poll_guard [THEN conjunct2, of idle_hw slow_env 5] h by blast
  then have w: "wire (poll slow_env 5 ?s1) = txn [5] 1 @ txn [5] 1"
    by (simp add: wire_def l0)
  from a c slow stuck h w show ?thesis by simp
qed

subsection \<open>The opening of a transaction\<close>

text \<open>
  C10: \<open>write_command\<close>, which opens every transaction of every operation, called with the
  device deselected: on the bus, eight idle clock pulses, then the select, then the eight bits of
  the opcode, most significant first. In the register, the first write clears the capture bit
  (output mode), the next sixteen are eight times clock low, clock high with chip-select still
  high, the next one clears the chip-select bit, and the 24 writes of the opcode follow.
\<close>

theorem write_command_preamble:
  assumes "bit (bitbang s) 2"
  shows "wire (write_command e command s) = wire s @ replicate 8 Idle @ [Select] @ byte_out command \<and>
    (\<exists>ws. length ws = 24 \<and>
       writes (write_command e command s) =
         writes s @ [unset_bit 3 (bitbang s)] @
         concat (replicate 8 [unset_bit 1 (unset_bit 3 (bitbang s)), set_bit 1 (unset_bit 3 (bitbang s))]) @
         [unset_bit 2 (set_bit 1 (unset_bit 3 (bitbang s)))] @ ws)"
  using assms write_command_writes [of e command s] by (simp add: write_command_wire)

text \<open>C10 at the registers at rest, for the opcode 0x05.\<close>

theorem write_command_preamble_witness:
  "bit (bitbang idle_hw) 2 \<and>
   wire (write_command quiet_env READ_STATUS_REGISTER idle_hw) =
     replicate 8 Idle @ [Select] @
     [Out False, Out False, Out False, Out False, Out False, Out True, Out False, Out True] \<and>
   take 18 (writes (write_command quiet_env READ_STATUS_REGISTER idle_hw)) =
     [4, 4, 6, 4, 6, 4, 6, 4, 6, 4, 6, 4, 6, 4, 6, 4, 6, 2]"
proof -
  have cs: "bit (bitbang idle_hw) 2" by (simp add: idle_hw_def)
  have w0: "wire idle_hw = []" "writes idle_hw = []" "bitbang idle_hw = 4"
    by (simp_all add: idle_hw_def wire_def writes_def)
  have b: "byte_out 5 = [Out False, Out False, Out False, Out False, Out False, Out True, Out False, Out True]"
    by (simp add: byte_out_def upt_rec)
  have v: "unset_bit 3 (4::u8) = 4" "unset_bit (Suc 0) (4::u8) = 4" "set_bit (Suc 0) (4::u8) = 6" "unset_bit 2 (6::u8) = 2"
    by (simp_all add: set_bit_eq_or unset_bit_eq_and_not)
  have r: "replicate 8 x = [x, x, x, x, x, x, x, x]" for x :: "u8 list"
    by (simp add: eval_nat_numeral)
  from write_command_preamble [OF cs, of quiet_env 5] cs show ?thesis
    by (auto simp add: w0 b v r)
qed

subsection \<open>The address on the wire\<close>

text \<open>
  C5: for every 32-bit address \<open>a\<close>, \<open>write_address\<close> sends exactly three bytes, first
  \<open>(a >> 16) & 0xFF\<close>, then \<open>(a >> 8) & 0xFF\<close>, then \<open>a & 0xFF\<close> (the bytes \<open>addr8[2]\<close>,
  \<open>addr8[1]\<close>, \<open>addr8[0]\<close> of the address as it lies in the memory of the little-endian
  target); with the device selected and in output mode, as \<open>write_command\<close> leaves it, these
  are the 24 bits on the wire, each byte most significant bit first.
\<close>

theorem write_address_order:
  assumes "\<not> bit (bitbang s) 2" and "\<not> bit (bitbang s) 3"
  shows "write_address e a s =
           spi_bitbang_send e (ucast (a AND 0xFF))
             (spi_bitbang_send e (ucast (drop_bit 8 a AND 0xFF))
                (spi_bitbang_send e (ucast (drop_bit 16 a AND 0xFF)) s)) \<and>
         wire (write_address e a s) =
           wire s @ byte_out (ucast (drop_bit 16 a AND 0xFF)) @
           byte_out (ucast (drop_bit 8 a AND 0xFF)) @ byte_out (ucast (a AND 0xFF))"
proof -
  have "write_address e a s =
      spi_bitbang_send e (addr8 a 0) (spi_bitbang_send e (addr8 a 1) (spi_bitbang_send e (addr8 a 2) s))"
    by (simp add: write_address_def eval_nat_numeral)
  moreover have "wire (write_address e a s) =
      wire s @ byte_out (addr8 a 2) @ byte_out (addr8 a 1) @ byte_out (addr8 a 0)"
    using assms by (rule write_address_wire)
  ultimately show ?thesis
    using addr8_byte [of a 0] addr8_byte [of a 1] addr8_byte [of a 2] by simp
qed

text \<open>C5 for the address 0x123456 after the read opcode.\<close>

theorem write_address_order_witness:
  "\<not> bit (bitbang (write_command quiet_env 0x03 idle_hw)) 2 \<and>
   \<not> bit (bitbang (write_command quiet_env 0x03 idle_hw)) 3 \<and>
   wire (write_address quiet_env 0x123456 (write_command quiet_env 0x03 idle_hw)) =
     wire (write_command quiet_env 0x03 idle_hw) @ byte_out 0x12 @ byte_out 0x34 @ byte_out 0x56"
proof -
  let ?s = "write_command quiet_env 0x03 idle_hw"
  have h: "\<not> bit (bitbang ?s) 2" "\<not> bit (bitbang ?s) 3"
    using write_command_bits [where e = quiet_env and c = 3 and s = idle_hw and k = 2]
      write_command_bits [where e = quiet_env and c = 3 and s = idle_hw and k = 3]
    by simp_all
  have v: "ucast (drop_bit 16 (0x123456 :: u32) AND 0xFF) = (0x12 :: u8)"
      "ucast (drop_bit 8 (0x123456 :: u32) AND 0xFF) = (0x34 :: u8)"
      "ucast ((0x123456 :: u32) AND 0xFF) = (0x56 :: u8)"
    by simp_all
  from write_address_order [OF h, where e = quiet_env and a = "0x123456"]
  have "wire (write_address quiet_env 0x123456 ?s) =
     wire ?s @ byte_out 0x12 @ byte_out 0x34 @ byte_out 0x56"
    unfolding v by (rule conjunct2)
  with h show ?thesis by (intro conjI)
qed

subsection \<open>The data read\<close>

text \<open>
  C9, amended: for every address and every length that the signed return type holds
  (\<open>0 \<le> sint len\<close>, a length up to \<open>SSIZE_MAX\<close>), \<open>spi_flash_nor_read\<close>, called with the
  device deselected, returns the length as its result; it has no error result and no busy-wait:
  its whole bus activity is one transaction, the read opcode and the three address bytes out,
  then the data bytes in, and the device is deselected at the end.
\<close>

theorem read_returns_length:
  assumes "bit (bitbang s) 2" and "0 \<le> sint len"
  shows "fst (fst (spi_flash_nor_read e nor from len s)) = uint len \<and>
         length (snd (fst (spi_flash_nor_read e nor from len s))) = nat (to_int len) \<and>
         wire (snd (spi_flash_nor_read e nor from len s)) =
           wire s @ txn [read_opcode nor, addr8 (ucast from) 2, addr8 (ucast from) 1,
                         addr8 (ucast from) 0] (nat (to_int len)) \<and>
         bit (bitbang (snd (spi_flash_nor_read e nor from len s))) 2"
proof -
  from assms(2) have "sint len = uint len" by (rule sint_nonneg_uint)
  with assms(1) show ?thesis
    by (simp add: read_result read_wire read_cs)
qed

text \<open>C9 amended, at a read of four bytes from address 0x123456 of a device that answers zeros.\<close>

theorem read_returns_length_witness:
  "bit (bitbang idle_hw) 2 \<and> 0 \<le> sint (4 :: 32 word) \<and>
   fst (spi_flash_nor_read quiet_env nor0 0x123456 (4 :: 32 word) idle_hw) = (4, [0, 0, 0, 0]) \<and>
   wire (snd (spi_flash_nor_read quiet_env nor0 0x123456 (4 :: 32 word) idle_hw)) =
     txn [0x03, 0x12, 0x34, 0x56] 4"
proof -
  have h: "bit (bitbang idle_hw) 2" "0 \<le> sint (4 :: 32 word)"
    by (simp_all add: idle_hw_def)
  have d: "snd (fst (spi_flash_nor_read quiet_env nor0 0x123456 (4 :: 32 word) idle_hw)) = [0, 0, 0, 0]"
    by (simp add: spi_flash_nor_read_def run idle_hw_def quiet_env_def nor0_def addr8_def)
  have a: "addr8 0x123456 2 = 0x12" "addr8 0x123456 (Suc 0) = 0x34" "addr8 0x123456 0 = 0x56"
    "read_opcode nor0 = 0x03" "to_int (4 :: 32 word) = 4" "wire idle_hw = []"
    by (simp_all add: addr8_def nor0_def to_int_def wire_def idle_hw_def)
  from read_returns_length [OF h, of quiet_env nor0 "0x123456"] h d
  show ?thesis
    by (simp add: a prod_eq_iff)
qed

text \<open>
  C9 as stated fails for a length above \<open>SSIZE_MAX\<close>: the result is the \<open>size_t\<close> length
  converted to \<open>ssize_t\<close>. A read of \<open>0x80000000\<close> bytes with a 32-bit \<open>size_t\<close>, and a
  read of \<open>0x8000000000000000\<close> bytes with a 64-bit one, return a negative value, which the
  callers take for an error.
\<close>

theorem read_length_counterexample:
  "fst (fst (spi_flash_nor_read quiet_env nor0 0 (0x80000000 :: 32 word) idle_hw)) = - 2147483648 \<and>
   fst (fst (spi_flash_nor_read quiet_env nor0 0 (0x8000000000000000 :: 64 word) idle_hw)) =
     - 9223372036854775808"
  by (simp add: spi_flash_nor_read_def split_beta)

subsection \<open>Chip-select around every transaction\<close>

text \<open>
  C7: each of the five operations, called with the device deselected, puts on the bus one or
  more whole transactions and nothing else: every bit of opcode, address and data is clocked
  between a select and the next deselect, and the chip-select bit is set in the state the
  operation returns, whatever its result, a timeout included.
\<close>

theorem chip_select_bracket:
  assumes "bit (bitbang s) 2"
  shows "bracketed s (snd (spi_flash_nor_read_reg e ropcode rlen s)) \<and>
         (\<forall>y. spi_flash_nor_write_reg e wopcode wbuf wlen s = Some y \<longrightarrow> bracketed s (snd y)) \<and>
         bracketed s (snd (spi_flash_nor_read e nor from len s)) \<and>
         (\<forall>y. spi_flash_nor_write e nor to plen pbuf s = Some y \<longrightarrow> bracketed s (snd y)) \<and>
         (\<forall>y. spi_flash_nor_erase e nor offs s = Some y \<longrightarrow> bracketed s (snd y))"
  using assms
  by (intro conjI allI impI)
     (simp_all add: bracketed_read_reg bracketed_read bracketed_write_reg bracketed_write
        bracketed_erase)

text \<open>
  C7 at the registers at rest: a register read, a data read, a register write, a program that
  times out at its first wait and an erase that succeeds.
\<close>

theorem chip_select_bracket_witness:
  "bit (bitbang idle_hw) 2 \<and>
   bracketed idle_hw (snd (spi_flash_nor_read_reg quiet_env 0x05 (1 :: 32 word) idle_hw)) \<and>
   bracketed idle_hw (snd (spi_flash_nor_read quiet_env nor0 0x010000 (4 :: 32 word) idle_hw)) \<and>
   (\<exists>y. spi_flash_nor_write_reg quiet_env 0x01 [0] (1 :: 32 word) idle_hw = Some y \<and> fst y = 0 \<and>
        bracketed idle_hw (snd y)) \<and>
   (\<exists>y. spi_flash_nor_write stuck_env nor0 0x010000 (2 :: 32 word) [0xAB, 0xCD] idle_hw = Some y \<and>
        fst y = - ETIMEDOUT \<and> bracketed idle_hw (snd y)) \<and>
   (\<exists>y. spi_flash_nor_erase quiet_env nor0 0x010000 idle_hw = Some y \<and> fst y = 0 \<and>
        bracketed idle_hw (snd y))"
proof -
  have h: "bit (bitbang idle_hw) 2" by (simp add: idle_hw_def)
  note b = chip_select_bracket [OF h]
  have wr: "\<exists>s'. spi_flash_nor_write_reg quiet_env 0x01 [0] (1 :: 32 word) idle_hw = Some (0, s')"
    by (simp add: spi_flash_nor_write_reg_def busy_quiet)
  have wt: "\<exists>s'. spi_flash_nor_write stuck_env nor0 0x010000 (2 :: 32 word) [0xAB, 0xCD] idle_hw =
      Some (- ETIMEDOUT, s')"
    by (simp add: spi_flash_nor_write_def stuck_first_wait)
  have er: "\<exists>s'. spi_flash_nor_erase quiet_env nor0 0x010000 idle_hw = Some (0, s')"
    by (simp add: spi_flash_nor_erase_def busy_quiet read_status_quiet split_beta)
  from wr obtain s1 where s1: "spi_flash_nor_write_reg quiet_env 0x01 [0] (1 :: 32 word) idle_hw = Some (0, s1)"
    by blast
  from wt obtain s2 where s2: "spi_flash_nor_write stuck_env nor0 0x010000 (2 :: 32 word) [0xAB, 0xCD] idle_hw =
      Some (- ETIMEDOUT, s2)" by blast
  from er obtain s3 where s3: "spi_flash_nor_erase quiet_env nor0 0x010000 idle_hw = Some (0, s3)"
    by blast
  from b [of quiet_env 5 "1 :: 32 word"]
  have "bracketed idle_hw (snd (spi_flash_nor_read_reg quiet_env 0x05 (1 :: 32 word) idle_hw))"
    by blast
  moreover from b [where e = quiet_env and nor = nor0 and len = "4 :: 32 word"]
  have "bracketed idle_hw (snd (spi_flash_nor_read quiet_env nor0 0x010000 (4 :: 32 word) idle_hw))"
    by blast
  moreover from b [where e = quiet_env and wlen = "1 :: 32 word"] s1
  have "bracketed idle_hw s1" by fastforce
  moreover from b [where e = stuck_env and plen = "2 :: 32 word"] s2
  have "bracketed idle_hw s2" by fastforce
  moreover from b [where e = quiet_env] s3
  have "bracketed idle_hw s3" by fastforce
  ultimately show ?thesis using h s1 s2 s3 by simp
qed

subsection \<open>Erase\<close>

text \<open>
  C2: \<open>spi_flash_nor_erase\<close>, called with the device deselected, first puts the transaction
  of the WRITE-ENABLE opcode on the bus. It returns \<open>y\<close> exactly when its waits end as follows.
  The first wait tests the work-in-progress flag (bit 0) of the status register (opcode 0x05)
  against a deadline 50 ms after the WRITE-ENABLE, and ends at its status read number
  \<open>k1 + 1\<close>; every status read is one transaction, the opcode out and one byte in. When it ends
  with the flag set past the deadline, the result is \<open>-ETIMEDOUT\<close>. Otherwise one transaction
  carries the erase opcode and the bytes \<open>(a >> 16) & 0xFF\<close>, \<open>(a >> 8) & 0xFF\<close>,
  \<open>a & 0xFF\<close> of the offset \<open>a\<close>, and two more waits follow, each against a deadline 3000 ms
  after its own start: on the erase-busy flag (bit 7) of the flag-status register (opcode 0x70),
  then on the work-in-progress flag again; the result is \<open>-ETIMEDOUT\<close> when one of them times
  out. Otherwise one more flag-status read gives the result: the byte read, masked with the
  erase-error flag, 0 or 0x20, unchanged. The erase does not return when a wait it reaches never
  ends.
\<close>

theorem erase_sequence:
  assumes "bit (bitbang s) 2"
  shows
   "let s0 = cs e CS_ENABLE (write_command e WRITE_ENABLE s); a = (ucast offs :: u32) in
      wire s0 = wire s @ txn [WRITE_ENABLE] 0 \<and>
      (spi_flash_nor_erase e nor offs s = Some y \<longleftrightarrow>
       (\<exists>k1 y1.
          waited e TIMEOUT_MS READ_STATUS_REGISTER WORK_IN_PROGRESS s0 k1 y1 \<and>
          wire (snd y1) = wire s0 @ concat (replicate (Suc k1) (txn [READ_STATUS_REGISTER] 1)) \<and>
          (if fst y1 = - ETIMEDOUT then y = (- ETIMEDOUT, snd y1)
           else
             (let s1 = cs e CS_ENABLE
                         (write_address e a (write_command e (erase_opcode nor) (snd y1))) in
                wire s1 = wire (snd y1) @
                          txn [erase_opcode nor, ucast (drop_bit 16 a AND 0xFF),
                               ucast (drop_bit 8 a AND 0xFF), ucast (a AND 0xFF)] 0 \<and>
                (\<exists>k2 y2.
                   waited e TIMEOUT_ERASE_MS READ_FLAG_STATUS_REGISTER ERASE_BUSY s1 k2 y2 \<and>
                   wire (snd y2) =
                     wire s1 @ concat (replicate (Suc k2) (txn [READ_FLAG_STATUS_REGISTER] 1)) \<and>
                   (if fst y2 = - ETIMEDOUT then y = (- ETIMEDOUT, snd y2)
                    else
                      (\<exists>k3 y3.
                         waited e TIMEOUT_ERASE_MS READ_STATUS_REGISTER WORK_IN_PROGRESS
                           (snd y2) k3 y3 \<and>
                         wire (snd y3) =
                           wire (snd y2) @
                           concat (replicate (Suc k3) (txn [READ_STATUS_REGISTER] 1)) \<and>
                         (if fst y3 = - ETIMEDOUT then y = (- ETIMEDOUT, snd y3)
                          else
                            wire (poll e READ_FLAG_STATUS_REGISTER (snd y3)) =
                              wire (snd y3) @ txn [READ_FLAG_STATUS_REGISTER] 1 \<and>
                            y = (uint (fst (read_status e READ_FLAG_STATUS_REGISTER (snd y3))
                                       AND ERASE_ERR),
                                 poll e READ_FLAG_STATUS_REGISTER (snd y3))))))))))"
proof -
  let ?s0 = "cs e 4 (write_command e 6 s)"
  let ?s1 = "\<lambda>s1. cs e 4 (write_address e (ucast offs) (write_command e (erase_opcode nor) s1))"
  let ?Q3 = "\<lambda>y3. if fst y3 = - ETIMEDOUT then y = (- ETIMEDOUT, snd y3)
      else y = (uint (fst (read_status e 0x70 (snd y3)) AND 0x20), poll e 0x70 (snd y3))"
  let ?Q2 = "\<lambda>y2. if fst y2 = - ETIMEDOUT then y = (- ETIMEDOUT, snd y2)
      else (\<exists>y3. busy e 3000 5 1 (snd y2) = Some y3 \<and> ?Q3 y3)"
  let ?Q1 = "\<lambda>y1. if fst y1 = - ETIMEDOUT then y = (- ETIMEDOUT, snd y1)
      else (\<exists>y2. busy e 3000 0x70 0x80 (?s1 (snd y1)) = Some y2 \<and> ?Q2 y2)"
  have w0: "wire ?s0 = wire s @ txn [6] 0"
    using assms by (rule command_txn)
  have code: "spi_flash_nor_erase e nor offs s = Some y \<longleftrightarrow>
      (\<exists>y1. busy e 50 5 1 ?s0 = Some y1 \<and> ?Q1 y1)"
    unfolding spi_flash_nor_erase_def busy_case
    by (simp add: split_beta poll_def eq_commute [of y])
  have l3: "(\<exists>k3 y3. waited e 3000 5 1 s2 k3 y3 \<and>
        wire (snd y3) = wire s2 @ concat (replicate (Suc k3) (txn [5] 1)) \<and>
        (if fst y3 = - ETIMEDOUT then y = (- ETIMEDOUT, snd y3)
         else wire (poll e 0x70 (snd y3)) = wire (snd y3) @ txn [0x70] 1 \<and>
              y = (uint (fst (read_status e 0x70 (snd y3)) AND 0x20), poll e 0x70 (snd y3)))) \<longleftrightarrow>
      (\<exists>y3. busy e 3000 5 1 s2 = Some y3 \<and> ?Q3 y3)"
    if "bit (bitbang s2) 2" for s2
    using that by (rule wait_step) (simp add: poll_wire)
  have l2: "(\<exists>k2 y2. waited e 3000 0x70 0x80 s1 k2 y2 \<and>
        wire (snd y2) = wire s1 @ concat (replicate (Suc k2) (txn [0x70] 1)) \<and>
        (if fst y2 = - ETIMEDOUT then y = (- ETIMEDOUT, snd y2)
         else (\<exists>k3 y3. waited e 3000 5 1 (snd y2) k3 y3 \<and>
            wire (snd y3) = wire (snd y2) @ concat (replicate (Suc k3) (txn [5] 1)) \<and>
            (if fst y3 = - ETIMEDOUT then y = (- ETIMEDOUT, snd y3)
             else wire (poll e 0x70 (snd y3)) = wire (snd y3) @ txn [0x70] 1 \<and>
              y = (uint (fst (read_status e 0x70 (snd y3)) AND 0x20), poll e 0x70 (snd y3)))))) \<longleftrightarrow>
      (\<exists>y2. busy e 3000 0x70 0x80 s1 = Some y2 \<and> ?Q2 y2)"
    if "bit (bitbang s1) 2" for s1
    using that by (rule wait_step) (simp only: l3)
  have l1: "(\<exists>k1 y1. waited e 50 5 1 ?s0 k1 y1 \<and>
        wire (snd y1) = wire ?s0 @ concat (replicate (Suc k1) (txn [5] 1)) \<and>
        (if fst y1 = - ETIMEDOUT then y = (- ETIMEDOUT, snd y1)
         else wire (?s1 (snd y1)) = wire (snd y1) @
                txn [erase_opcode nor, ucast (drop_bit 16 (ucast offs :: u32) AND 0xFF),
                     ucast (drop_bit 8 (ucast offs :: u32) AND 0xFF),
                     ucast ((ucast offs :: u32) AND 0xFF)] 0 \<and>
         (\<exists>k2 y2. waited e 3000 0x70 0x80 (?s1 (snd y1)) k2 y2 \<and>
        wire (snd y2) = wire (?s1 (snd y1)) @ concat (replicate (Suc k2) (txn [0x70] 1)) \<and>
        (if fst y2 = - ETIMEDOUT then y = (- ETIMEDOUT, snd y2)
         else (\<exists>k3 y3. waited e 3000 5 1 (snd y2) k3 y3 \<and>
            wire (snd y3) = wire (snd y2) @ concat (replicate (Suc k3) (txn [5] 1)) \<and>
            (if fst y3 = - ETIMEDOUT then y = (- ETIMEDOUT, snd y3)
             else wire (poll e 0x70 (snd y3)) = wire (snd y3) @ txn [0x70] 1 \<and>
              y = (uint (fst (read_status e 0x70 (snd y3)) AND 0x20), poll e 0x70 (snd y3)))))))) \<longleftrightarrow>
      (\<exists>y1. busy e 50 5 1 ?s0 = Some y1 \<and> ?Q1 y1)"
    apply (rule wait_step [OF cs_high_bit])
    apply (simp only: l2 [OF cs_high_bit])
    apply (simp add: command_address_txn address_bytes)
    done
  show ?thesis
    apply (simp only: Let_def)
    apply (simp only: l1)
    apply (simp only: code w0 simp_thms)
    done
qed


text \<open>
  C2 at the registers at rest, for the offset 0x123456, with five devices. One is still busy at
  the first status read: the first wait reads the status twice, the result is 0, and the bus has
  seen WRITE-ENABLE, two status reads, the erase opcode with the bytes 0x12, 0x34, 0x56, and
  the reads of flag-status, status and flag-status. One takes 60 ticks, more than 50 ms, over
  the erase: each of the two waits after the erase command reads its register twice and the
  result is 0. One reports the erase error: the result is 0x20. One never clears a flag, under a
  clock that passes the 50 ms during one status read: the result is \<open>-ETIMEDOUT\<close> after
  WRITE-ENABLE and one status read. One never ends its erase, with 3000 ms the time of one
  status read: the result is \<open>-ETIMEDOUT\<close> after the second flag-status read.
\<close>

theorem erase_sequence_witness:
  "bit (bitbang idle_hw) 2 \<and>
   map_option fst (spi_flash_nor_erase settling_env nor0 0x123456 idle_hw) = Some 0 \<and>
   map_option (wire \<circ> snd) (spi_flash_nor_erase settling_env nor0 0x123456 idle_hw) =
     Some (txn [0x06] 0 @ txn [0x05] 1 @ txn [0x05] 1 @ txn [0xD8, 0x12, 0x34, 0x56] 0 @
           txn [0x70] 1 @ txn [0x05] 1 @ txn [0x70] 1) \<and>
   map_option fst (spi_flash_nor_erase erasing_env nor0 0x123456 idle_hw) = Some 0 \<and>
   map_option (wire \<circ> snd) (spi_flash_nor_erase erasing_env nor0 0x123456 idle_hw) =
     Some (txn [0x06] 0 @ txn [0x05] 1 @ txn [0xD8, 0x12, 0x34, 0x56] 0 @
           txn [0x70] 1 @ txn [0x70] 1 @ txn [0x05] 1 @ txn [0x05] 1 @ txn [0x70] 1) \<and>
   map_option fst (spi_flash_nor_erase erase_fail_env nor0 0x123456 idle_hw) = Some 0x20 \<and>
   map_option fst (spi_flash_nor_erase stuck_env nor0 0x123456 idle_hw) = Some (- ETIMEDOUT) \<and>
   map_option (wire \<circ> snd) (spi_flash_nor_erase stuck_env nor0 0x123456 idle_hw) =
     Some (txn [0x06] 0 @ txn [0x05] 1) \<and>
   map_option fst (spi_flash_nor_erase erase_stuck_env nor0 0x123456 idle_hw) =
     Some (- ETIMEDOUT) \<and>
   map_option (wire \<circ> snd) (spi_flash_nor_erase erase_stuck_env nor0 0x123456 idle_hw) =
     Some (txn [0x06] 0 @ txn [0x05] 1 @ txn [0xD8, 0x12, 0x34, 0x56] 0 @
           txn [0x70] 1 @ txn [0x70] 1)"
proof -
  have h: "bit (bitbang idle_hw) 2" by (simp add: idle_hw_def)
  have w: "wire idle_hw = []" by (simp add: wire_def idle_hw_def)
  have n: "erase_opcode nor0 = 0xD8" "(ucast (0x123456 :: loff_t) :: u32) = 0x123456"
    by (simp_all add: nor0_def)
  have v: "ucast (drop_bit 16 (0x123456 :: u32) AND 0xFF) = (0x12 :: u8)"
    "ucast (drop_bit 8 (0x123456 :: u32) AND 0xFF) = (0x34 :: u8)"
    "ucast ((0x123456 :: u32) AND 0xFF) = (0x56 :: u8)"
    by simp_all
  have z: "((0::int) = - 110) = False" by simp
  have A: "wire (cs e 4 (write_address e 0x123456 (write_command e 0xD8 (poll e' reg s)))) =
      wire (poll e' reg s) @ txn [0xD8, 0x12, 0x34, 0x56] 0" for e e' reg s
    using command_address_txn [OF poll_cs, of e "0x123456" "0xD8" e' reg s]
    by (simp add: address_bytes)
  note T = erase_sequence [OF h, where nor = nor0 and offs = "0x123456", unfolded Let_def,
      THEN conjunct2, THEN iffD2]
  note trace = poll_wire poll_cs cs_high_bit A command_txn [OF h] w
  have settle: "spi_flash_nor_erase settling_env nor0 0x123456 idle_hw =
     Some (0, poll settling_env 0x70 (poll settling_env 5 (poll settling_env 0x70
       (cs settling_env 4 (write_address settling_env 0x123456 (write_command settling_env 0xD8
          (poll settling_env 5 (poll settling_env 5
             (cs settling_env 4 (write_command settling_env 6 idle_hw))))))))))"
  proof -
    let ?e = settling_env
    let ?s0 = "cs ?e 4 (write_command ?e 6 idle_hw)"
    let ?s1 = "poll ?e 5 (poll ?e 5 ?s0)"
    let ?s1' = "cs ?e 4 (write_address ?e 0x123456 (write_command ?e 0xD8 ?s1))"
    let ?s2 = "poll ?e 0x70 ?s1'"
    let ?s3 = "poll ?e 5 ?s2"
    have a: "fst (read_status ?e 5 ?s0) = 0xFF" "length (log ?s0) = 43"
      "length (log (poll ?e 5 ?s0)) = 103" "fst (read_status ?e 5 (poll ?e 5 ?s0)) = 0"
      by (simp_all add: run idle_hw_def settling_env_def)
    have b: "fst (read_status ?e 0x70 ?s1') = 0"
      by (simp add: run idle_hw_def settling_env_def addr8_def)
    have c: "fst (read_status ?e 5 ?s2) = 0"
      by (simp add: run idle_hw_def settling_env_def addr8_def)
    have d: "fst (read_status ?e 0x70 ?s3) = 0"
      by (simp add: run idle_hw_def settling_env_def addr8_def)
    have j: "jiffies ?e x = length (log x) div 100" "msecs_to_jiffies ?e m = m" for x m
      by (simp_all add: settling_env_def)
    have W1: "waited ?e 50 5 1 ?s0 (Suc 0) (0, ?s1)"
      by (rule waited_second) (simp_all add: a j time_after_def)
    have W2: "waited ?e 3000 0x70 0x80 ?s1' 0 (0, ?s2)"
      by (rule waited_first) (simp add: b)
    have W3: "waited ?e 3000 5 1 ?s2 0 (0, ?s3)"
      by (rule waited_first) (simp add: c)
    show ?thesis
      apply (rule T)
      apply (rule exI [of _ "Suc 0"], rule exI [of _ "(0, ?s1)"])
      apply (simp only: fst_conv snd_conv z if_False n v)
      apply (intro conjI)
         apply (rule W1)
        apply (rule poll_wire_twice [OF cs_high_bit])
       apply (rule A)
      apply (rule exI [of _ 0], rule exI [of _ "(0, ?s2)"])
      apply (simp only: fst_conv snd_conv z if_False)
      apply (intro conjI)
        apply (rule W2)
       apply (rule poll_wire_once [OF cs_high_bit])
      apply (rule exI [of _ 0], rule exI [of _ "(0, ?s3)"])
      apply (simp only: fst_conv snd_conv z if_False)
      apply (intro conjI)
        apply (rule W3)
       apply (rule poll_wire_once [OF poll_cs])
       apply (rule poll_wire [OF poll_cs])
      apply (simp add: d)
      done
  qed
  have erasing: "spi_flash_nor_erase erasing_env nor0 0x123456 idle_hw =
     Some (0, poll erasing_env 0x70 (poll erasing_env 5 (poll erasing_env 5
       (poll erasing_env 0x70 (poll erasing_env 0x70
       (cs erasing_env 4 (write_address erasing_env 0x123456 (write_command erasing_env 0xD8
          (poll erasing_env 5
             (cs erasing_env 4 (write_command erasing_env 6 idle_hw)))))))))))"
  proof -
    let ?e = erasing_env
    let ?s0 = "cs ?e 4 (write_command ?e 6 idle_hw)"
    let ?s1 = "poll ?e 5 ?s0"
    let ?s1' = "cs ?e 4 (write_address ?e 0x123456 (write_command ?e 0xD8 ?s1))"
    let ?s2 = "poll ?e 0x70 (poll ?e 0x70 ?s1')"
    let ?s3 = "poll ?e 5 (poll ?e 5 ?s2)"
    have a: "fst (read_status ?e 5 ?s0) = 0"
      by (simp add: run idle_hw_def erasing_env_def)
    have b: "fst (read_status ?e 0x70 ?s1') = 0xFF" "length (log ?s1') = 218"
      "length (log (poll ?e 0x70 ?s1')) = 278" "fst (read_status ?e 0x70 (poll ?e 0x70 ?s1')) = 0"
      by (simp_all add: run idle_hw_def erasing_env_def addr8_def)
    have c: "fst (read_status ?e 5 ?s2) = 0xFF" "length (log ?s2) = 338"
      "length (log (poll ?e 5 ?s2)) = 398" "fst (read_status ?e 5 (poll ?e 5 ?s2)) = 0"
      by (simp_all add: run idle_hw_def erasing_env_def addr8_def)
    have d: "fst (read_status ?e 0x70 ?s3) = 0"
      by (simp add: run idle_hw_def erasing_env_def addr8_def)
    have j: "jiffies ?e x = length (log x)" "msecs_to_jiffies ?e m = m" for x m
      by (simp_all add: erasing_env_def)
    have W1: "waited ?e 50 5 1 ?s0 0 (0, ?s1)"
      by (rule waited_first) (simp add: a)
    have W2: "waited ?e 3000 0x70 0x80 ?s1' (Suc 0) (0, ?s2)"
      by (rule waited_second) (simp_all add: b j time_after_def)
    have W3: "waited ?e 3000 5 1 ?s2 (Suc 0) (0, ?s3)"
      by (rule waited_second) (simp_all add: c j time_after_def)
    show ?thesis
      apply (rule T)
      apply (rule exI [of _ 0], rule exI [of _ "(0, ?s1)"])
      apply (simp only: fst_conv snd_conv z if_False n v)
      apply (intro conjI)
         apply (rule W1)
        apply (rule poll_wire_once [OF cs_high_bit])
       apply (rule A)
      apply (rule exI [of _ "Suc 0"], rule exI [of _ "(0, ?s2)"])
      apply (simp only: fst_conv snd_conv z if_False)
      apply (intro conjI)
        apply (rule W2)
       apply (rule poll_wire_twice [OF cs_high_bit])
      apply (rule exI [of _ "Suc 0"], rule exI [of _ "(0, ?s3)"])
      apply (simp only: fst_conv snd_conv z if_False)
      apply (intro conjI)
        apply (rule W3)
       apply (rule poll_wire_twice [OF poll_cs])
       apply (rule poll_wire [OF poll_cs])
      apply (simp add: d)
      done
  qed
  have fail: "spi_flash_nor_erase erase_fail_env nor0 0x123456 idle_hw =
     Some (0x20, poll erase_fail_env 0x70 (poll erase_fail_env 5 (poll erase_fail_env 0x70
       (cs erase_fail_env 4 (write_address erase_fail_env 0x123456 (write_command erase_fail_env 0xD8
          (poll erase_fail_env 5
             (cs erase_fail_env 4 (write_command erase_fail_env 6 idle_hw)))))))))"
  proof -
    let ?e = erase_fail_env
    let ?s0 = "cs ?e 4 (write_command ?e 6 idle_hw)"
    let ?s1 = "poll ?e 5 ?s0"
    let ?s1' = "cs ?e 4 (write_address ?e 0x123456 (write_command ?e 0xD8 ?s1))"
    let ?s2 = "poll ?e 0x70 ?s1'"
    let ?s3 = "poll ?e 5 ?s2"
    have W1: "waited ?e 50 5 1 ?s0 0 (0, ?s1)"
      by (rule waited_first) (simp add: run idle_hw_def erase_fail_env_def)
    have W2: "waited ?e 3000 0x70 0x80 ?s1' 0 (0, ?s2)"
      by (rule waited_first) (simp add: run idle_hw_def erase_fail_env_def addr8_def)
    have W3: "waited ?e 3000 5 1 ?s2 0 (0, ?s3)"
      by (rule waited_first) (simp add: run idle_hw_def erase_fail_env_def addr8_def)
    have d: "fst (read_status ?e 0x70 ?s3) = 0x20"
      by (simp add: run idle_hw_def erase_fail_env_def addr8_def)
    show ?thesis
      apply (rule T)
      apply (rule exI [of _ 0], rule exI [of _ "(0, ?s1)"])
      apply (simp only: fst_conv snd_conv z if_False n v)
      apply (intro conjI)
         apply (rule W1)
        apply (rule poll_wire_once [OF cs_high_bit])
       apply (rule A)
      apply (rule exI [of _ 0], rule exI [of _ "(0, ?s2)"])
      apply (simp only: fst_conv snd_conv z if_False)
      apply (intro conjI)
        apply (rule W2)
       apply (rule poll_wire_once [OF cs_high_bit])
      apply (rule exI [of _ 0], rule exI [of _ "(0, ?s3)"])
      apply (simp only: fst_conv snd_conv z if_False)
      apply (intro conjI)
        apply (rule W3)
       apply (rule poll_wire_once [OF poll_cs])
       apply (rule poll_wire [OF poll_cs])
      apply (simp add: d)
      done
  qed
  have stuck: "spi_flash_nor_erase stuck_env nor0 0x123456 idle_hw =
     Some (- ETIMEDOUT, poll stuck_env 5 (cs stuck_env 4 (write_command stuck_env 6 idle_hw)))"
  proof -
    let ?e = stuck_env
    let ?s0 = "cs ?e 4 (write_command ?e 6 idle_hw)"
    have l: "length (log ?s0) = 43" "length (log (poll ?e 5 ?s0)) = 103"
      by (simp_all add: run idle_hw_def stuck_env_def)
    have j: "jiffies ?e x = length (log x)" "msecs_to_jiffies ?e m = m" for x m
      by (simp_all add: stuck_env_def)
    have W1: "waited ?e 50 5 1 ?s0 0 (- ETIMEDOUT, poll ?e 5 ?s0)"
      by (rule waited_first) (simp_all add: read_status_stuck l j time_after_def)
    show ?thesis
      apply (rule T)
      apply (rule exI [of _ 0], rule exI [of _ "(- ETIMEDOUT, poll ?e 5 ?s0)"])
      apply (simp only: fst_conv snd_conv if_True simp_thms)
      apply (intro conjI)
       apply (rule W1)
      apply (rule poll_wire_once [OF cs_high_bit])
      done
  qed
  have late: "spi_flash_nor_erase erase_stuck_env nor0 0x123456 idle_hw =
     Some (- ETIMEDOUT, poll erase_stuck_env 0x70 (poll erase_stuck_env 0x70
       (cs erase_stuck_env 4 (write_address erase_stuck_env 0x123456
          (write_command erase_stuck_env 0xD8
             (poll erase_stuck_env 5
                (cs erase_stuck_env 4 (write_command erase_stuck_env 6 idle_hw))))))))"
  proof -
    let ?e = erase_stuck_env
    let ?s0 = "cs ?e 4 (write_command ?e 6 idle_hw)"
    let ?s1 = "poll ?e 5 ?s0"
    let ?s1' = "cs ?e 4 (write_address ?e 0x123456 (write_command ?e 0xD8 ?s1))"
    let ?s2 = "poll ?e 0x70 (poll ?e 0x70 ?s1')"
    have a: "fst (read_status ?e 5 ?s0) = 0"
      by (simp add: run idle_hw_def erase_stuck_env_def)
    have b: "fst (read_status ?e 0x70 ?s1') = 0xFF" "length (log ?s1') = 218"
      "length (log (poll ?e 0x70 ?s1')) = 278"
      "fst (read_status ?e 0x70 (poll ?e 0x70 ?s1')) = 0xFF" "length (log ?s2) = 338"
      by (simp_all add: run idle_hw_def erase_stuck_env_def addr8_def)
    have j: "jiffies ?e x = length (log x)" "msecs_to_jiffies ?e m = m div 50" for x m
      by (simp_all add: erase_stuck_env_def)
    have W1: "waited ?e 50 5 1 ?s0 0 (0, ?s1)"
      by (rule waited_first) (simp add: a)
    have W2: "waited ?e 3000 0x70 0x80 ?s1' (Suc 0) (- ETIMEDOUT, ?s2)"
      by (rule waited_second_late) (simp_all add: b j time_after_def)
    show ?thesis
      apply (rule T)
      apply (rule exI [of _ 0], rule exI [of _ "(0, ?s1)"])
      apply (simp only: fst_conv snd_conv z if_False n v)
      apply (intro conjI)
         apply (rule W1)
        apply (rule poll_wire_once [OF cs_high_bit])
       apply (rule A)
      apply (rule exI [of _ "Suc 0"], rule exI [of _ "(- ETIMEDOUT, ?s2)"])
      apply (simp only: fst_conv snd_conv if_True simp_thms)
      apply (intro conjI)
        apply (rule W2)
       apply (rule poll_wire_twice [OF cs_high_bit])
      done
  qed
  from h show ?thesis
    by (simp add: settle erasing fail stuck late trace)
qed

subsection \<open>Program\<close>

text \<open>
  C3, amended: for a length that fits \<open>int\<close> and \<open>ssize_t\<close> (\<open>0 \<le> sint len < 2^31\<close>),
  \<open>spi_flash_nor_write\<close>, called with the device deselected, first puts the transaction of
  the WRITE-ENABLE opcode on the bus. It returns \<open>y\<close> exactly when its waits end as follows.
  The first wait tests the work-in-progress flag (bit 0) of the status register (opcode 0x05)
  against a deadline 50 ms after the WRITE-ENABLE, and ends at its status read number
  \<open>k1 + 1\<close>. When it ends with the flag set past the deadline, the result is \<open>-ETIMEDOUT\<close>.
  Otherwise one transaction carries the program opcode, the bytes \<open>(a >> 16) & 0xFF\<close>,
  \<open>(a >> 8) & 0xFF\<close>, \<open>a & 0xFF\<close> of the address \<open>a\<close> and the first \<open>len\<close> bytes of the
  buffer, and a second wait on the same flag follows, against a deadline 50 ms after that
  transaction; the result is \<open>-ETIMEDOUT\<close> when it times out. Otherwise one flag-status read
  (opcode 0x70) gives the result: \<open>-EINVAL\<close> when the byte read has the program-error flag
  (bit 4) set, and otherwise the length, the number of bytes sent. The program does not return
  when a wait it reaches never ends.
\<close>

theorem write_sequence:
  assumes "bit (bitbang s) 2" and "0 \<le> sint len" and "sint len < 2 ^ 31"
  shows
   "let s0 = cs e CS_ENABLE (write_command e WRITE_ENABLE s); a = (ucast to :: u32) in
      wire s0 = wire s @ txn [WRITE_ENABLE] 0 \<and>
      (spi_flash_nor_write e nor to len buf s = Some y \<longleftrightarrow>
       (\<exists>k1 y1.
          waited e TIMEOUT_MS READ_STATUS_REGISTER WORK_IN_PROGRESS s0 k1 y1 \<and>
          wire (snd y1) = wire s0 @ concat (replicate (Suc k1) (txn [READ_STATUS_REGISTER] 1)) \<and>
          (if fst y1 = - ETIMEDOUT then y = (- ETIMEDOUT, snd y1)
           else
             (let s1 = cs e CS_ENABLE
                         (write_data e buf (to_int len)
                            (write_address e a (write_command e (program_opcode nor) (snd y1)))) in
                wire s1 = wire (snd y1) @
                          txn ([program_opcode nor, ucast (drop_bit 16 a AND 0xFF),
                                ucast (drop_bit 8 a AND 0xFF), ucast (a AND 0xFF)] @
                               map ((!) buf) [0..<unat len]) 0 \<and>
                (\<exists>k2 y2.
                   waited e TIMEOUT_MS READ_STATUS_REGISTER WORK_IN_PROGRESS s1 k2 y2 \<and>
                   wire (snd y2) =
                     wire s1 @ concat (replicate (Suc k2) (txn [READ_STATUS_REGISTER] 1)) \<and>
                   (if fst y2 = - ETIMEDOUT then y = (- ETIMEDOUT, snd y2)
                    else
                      wire (poll e READ_FLAG_STATUS_REGISTER (snd y2)) =
                        wire (snd y2) @ txn [READ_FLAG_STATUS_REGISTER] 1 \<and>
                      y = (if fst (read_status e READ_FLAG_STATUS_REGISTER (snd y2))
                                AND PROGRAM_ERR \<noteq> 0
                           then - EINVAL else uint len,
                           poll e READ_FLAG_STATUS_REGISTER (snd y2))))))))"
proof -
  let ?s0 = "cs e 4 (write_command e 6 s)"
  let ?s1 = "\<lambda>s1. cs e 4 (write_data e buf (to_int len)
      (write_address e (ucast to) (write_command e (program_opcode nor) s1)))"
  let ?Q2 = "\<lambda>y2. if fst y2 = - ETIMEDOUT then y = (- ETIMEDOUT, snd y2)
      else y = (if fst (read_status e 0x70 (snd y2)) AND 0x10 \<noteq> 0 then - EINVAL else uint len,
                poll e 0x70 (snd y2))"
  let ?Q1 = "\<lambda>y1. if fst y1 = - ETIMEDOUT then y = (- ETIMEDOUT, snd y1)
      else (\<exists>y2. busy e 50 5 1 (?s1 (snd y1)) = Some y2 \<and> ?Q2 y2)"
  have w0: "wire ?s0 = wire s @ txn [6] 0"
    using assms(1) by (rule command_txn)
  have i: "to_int len = uint len" using assms(2,3) by (rule to_int_small)
  then have n: "nat (to_int len) = unat len" by simp
  have r: "sint len = uint len" using assms(2) by (rule sint_nonneg_uint)
  have code: "spi_flash_nor_write e nor to len buf s = Some y \<longleftrightarrow>
      (\<exists>y1. busy e 50 5 1 ?s0 = Some y1 \<and> ?Q1 y1)"
    unfolding spi_flash_nor_write_def busy_case
    by (simp add: split_beta poll_def r eq_commute [of y])
  have l2: "(\<exists>k2 y2. waited e 50 5 1 s1 k2 y2 \<and>
        wire (snd y2) = wire s1 @ concat (replicate (Suc k2) (txn [5] 1)) \<and>
        (if fst y2 = - ETIMEDOUT then y = (- ETIMEDOUT, snd y2)
         else wire (poll e 0x70 (snd y2)) = wire (snd y2) @ txn [0x70] 1 \<and>
              y = (if fst (read_status e 0x70 (snd y2)) AND 0x10 \<noteq> 0 then - EINVAL else uint len,
                   poll e 0x70 (snd y2)))) \<longleftrightarrow>
      (\<exists>y2. busy e 50 5 1 s1 = Some y2 \<and> ?Q2 y2)"
    if "bit (bitbang s1) 2" for s1
    using that by (rule wait_step) (simp add: poll_wire)
  have l1: "(\<exists>k1 y1. waited e 50 5 1 ?s0 k1 y1 \<and>
        wire (snd y1) = wire ?s0 @ concat (replicate (Suc k1) (txn [5] 1)) \<and>
        (if fst y1 = - ETIMEDOUT then y = (- ETIMEDOUT, snd y1)
         else wire (?s1 (snd y1)) = wire (snd y1) @
                txn ([program_opcode nor, ucast (drop_bit 16 (ucast to :: u32) AND 0xFF),
                      ucast (drop_bit 8 (ucast to :: u32) AND 0xFF),
                      ucast ((ucast to :: u32) AND 0xFF)] @ map ((!) buf) [0..<unat len]) 0 \<and>
         (\<exists>k2 y2. waited e 50 5 1 (?s1 (snd y1)) k2 y2 \<and>
        wire (snd y2) = wire (?s1 (snd y1)) @ concat (replicate (Suc k2) (txn [5] 1)) \<and>
        (if fst y2 = - ETIMEDOUT then y = (- ETIMEDOUT, snd y2)
         else wire (poll e 0x70 (snd y2)) = wire (snd y2) @ txn [0x70] 1 \<and>
              y = (if fst (read_status e 0x70 (snd y2)) AND 0x10 \<noteq> 0 then - EINVAL else uint len,
                   poll e 0x70 (snd y2)))))) \<longleftrightarrow>
      (\<exists>y1. busy e 50 5 1 ?s0 = Some y1 \<and> ?Q1 y1)"
    apply (rule wait_step [OF cs_high_bit])
    apply (simp only: l2 [OF cs_high_bit])
    apply (simp add: command_address_data_txn address_bytes n)
    done
  show ?thesis
    apply (simp only: Let_def)
    apply (simp only: l1)
    apply (simp only: code w0 simp_thms)
    done
qed

text \<open>
  C3 amended, at the registers at rest, for two bytes at the address 0x123456, with five
  devices. One is still busy at the first status read: the first wait reads the status twice,
  the result is 2, and the bus has seen WRITE-ENABLE, two status reads, the program opcode with
  the bytes 0x12, 0x34, 0x56 and the data 0xAB, 0xCD, one status read and one flag-status
  read. One is busy at the first status read after the program command: the second wait reads
  the status twice and the result is 2. One reports the program error: the result is
  \<open>-EINVAL\<close>. One never clears a flag, under a clock that passes the 50 ms during one status
  read: the result is \<open>-ETIMEDOUT\<close> after WRITE-ENABLE and one status read. One never ends its
  program: the result is \<open>-ETIMEDOUT\<close> after the program command and one status read.
\<close>

theorem write_sequence_witness:
  "bit (bitbang idle_hw) 2 \<and> 0 \<le> sint (2 :: 32 word) \<and> sint (2 :: 32 word) < 2 ^ 31 \<and>
   map_option fst
     (spi_flash_nor_write settling_env nor0 0x123456 (2 :: 32 word) [0xAB, 0xCD] idle_hw) = Some 2 \<and>
   map_option (wire \<circ> snd)
     (spi_flash_nor_write settling_env nor0 0x123456 (2 :: 32 word) [0xAB, 0xCD] idle_hw) =
     Some (txn [0x06] 0 @ txn [0x05] 1 @ txn [0x05] 1 @
           txn [0x02, 0x12, 0x34, 0x56, 0xAB, 0xCD] 0 @ txn [0x05] 1 @ txn [0x70] 1) \<and>
   map_option fst
     (spi_flash_nor_write programming_env nor0 0x123456 (2 :: 32 word) [0xAB, 0xCD] idle_hw) =
     Some 2 \<and>
   map_option (wire \<circ> snd)
     (spi_flash_nor_write programming_env nor0 0x123456 (2 :: 32 word) [0xAB, 0xCD] idle_hw) =
     Some (txn [0x06] 0 @ txn [0x05] 1 @ txn [0x02, 0x12, 0x34, 0x56, 0xAB, 0xCD] 0 @
           txn [0x05] 1 @ txn [0x05] 1 @ txn [0x70] 1) \<and>
   map_option fst
     (spi_flash_nor_write program_fail_env nor0 0x123456 (2 :: 32 word) [0xAB, 0xCD] idle_hw) =
     Some (- EINVAL) \<and>
   map_option fst
     (spi_flash_nor_write stuck_env nor0 0x123456 (2 :: 32 word) [0xAB, 0xCD] idle_hw) =
     Some (- ETIMEDOUT) \<and>
   map_option (wire \<circ> snd)
     (spi_flash_nor_write stuck_env nor0 0x123456 (2 :: 32 word) [0xAB, 0xCD] idle_hw) =
     Some (txn [0x06] 0 @ txn [0x05] 1) \<and>
   map_option fst
     (spi_flash_nor_write program_stuck_env nor0 0x123456 (2 :: 32 word) [0xAB, 0xCD] idle_hw) =
     Some (- ETIMEDOUT) \<and>
   map_option (wire \<circ> snd)
     (spi_flash_nor_write program_stuck_env nor0 0x123456 (2 :: 32 word) [0xAB, 0xCD] idle_hw) =
     Some (txn [0x06] 0 @ txn [0x05] 1 @ txn [0x02, 0x12, 0x34, 0x56, 0xAB, 0xCD] 0 @
           txn [0x05] 1)"
proof -
  have h: "bit (bitbang idle_hw) 2" "0 \<le> sint (2 :: 32 word)" "sint (2 :: 32 word) < 2 ^ 31"
    by (simp_all add: idle_hw_def)
  have w: "wire idle_hw = []" by (simp add: wire_def idle_hw_def)
  have n: "program_opcode nor0 = 0x02" "(ucast (0x123456 :: loff_t) :: u32) = 0x123456"
    "to_int (2 :: 32 word) = 2" "unat (2 :: 32 word) = 2" "uint (2 :: 32 word) = 2"
    by (simp_all add: nor0_def to_int_def)
  have v: "ucast (drop_bit 16 (0x123456 :: u32) AND 0xFF) = (0x12 :: u8)"
    "ucast (drop_bit 8 (0x123456 :: u32) AND 0xFF) = (0x34 :: u8)"
    "ucast ((0x123456 :: u32) AND 0xFF) = (0x56 :: u8)"
    by simp_all
  have z: "((0::int) = - 110) = False" by simp
  have m: "[0x02, 0x12, 0x34, 0x56] @ map ((!) [0xAB, 0xCD]) [0..<2] =
      [0x02, 0x12, 0x34, 0x56, 0xAB, 0xCD :: u8]"
    by (simp add: upt_rec)
  have A: "wire (cs e 4 (write_data e [0xAB, 0xCD] 2
               (write_address e 0x123456 (write_command e 0x02 (poll e' reg s))))) =
      wire (poll e' reg s) @ txn [0x02, 0x12, 0x34, 0x56, 0xAB, 0xCD] 0" for e e' reg s
    using command_address_data_txn [OF poll_cs, of e "[0xAB, 0xCD]" 2 "0x123456" "0x02" e' reg s]
    by (simp add: address_bytes upt_rec)
  note T = write_sequence [OF h, where nor = nor0 and to = "0x123456" and buf = "[0xAB, 0xCD]",
      unfolded Let_def, THEN conjunct2, THEN iffD2]
  note trace = poll_wire poll_cs cs_high_bit A command_txn [OF h(1)] w
  have settle: "spi_flash_nor_write settling_env nor0 0x123456 (2 :: 32 word) [0xAB, 0xCD] idle_hw =
     Some (2, poll settling_env 0x70 (poll settling_env 5
       (cs settling_env 4 (write_data settling_env [0xAB, 0xCD] 2
          (write_address settling_env 0x123456 (write_command settling_env 0x02
             (poll settling_env 5 (poll settling_env 5
                (cs settling_env 4 (write_command settling_env 6 idle_hw))))))))))"
  proof -
    let ?e = settling_env
    let ?s0 = "cs ?e 4 (write_command ?e 6 idle_hw)"
    let ?s1 = "poll ?e 5 (poll ?e 5 ?s0)"
    let ?s1' = "cs ?e 4 (write_data ?e [0xAB, 0xCD] 2
                  (write_address ?e 0x123456 (write_command ?e 0x02 ?s1)))"
    let ?s2 = "poll ?e 5 ?s1'"
    have a: "fst (read_status ?e 5 ?s0) = 0xFF" "length (log ?s0) = 43"
      "length (log (poll ?e 5 ?s0)) = 103" "fst (read_status ?e 5 (poll ?e 5 ?s0)) = 0"
      by (simp_all add: run idle_hw_def settling_env_def)
    have b: "fst (read_status ?e 5 ?s1') = 0"
      by (simp add: run idle_hw_def settling_env_def addr8_def upt_rec)
    have d: "fst (read_status ?e 0x70 ?s2) = 0"
      by (simp add: run idle_hw_def settling_env_def addr8_def upt_rec)
    have j: "jiffies ?e x = length (log x) div 100" "msecs_to_jiffies ?e m = m" for x m
      by (simp_all add: settling_env_def)
    have W1: "waited ?e 50 5 1 ?s0 (Suc 0) (0, ?s1)"
      by (rule waited_second) (simp_all add: a j time_after_def)
    have W2: "waited ?e 50 5 1 ?s1' 0 (0, ?s2)"
      by (rule waited_first) (simp add: b)
    show ?thesis
      apply (rule T)
      apply (rule exI [of _ "Suc 0"], rule exI [of _ "(0, ?s1)"])
      apply (simp only: fst_conv snd_conv z if_False n v m)
      apply (intro conjI)
         apply (rule W1)
        apply (rule poll_wire_twice [OF cs_high_bit])
       apply (rule A)
      apply (rule exI [of _ 0], rule exI [of _ "(0, ?s2)"])
      apply (simp only: fst_conv snd_conv z if_False)
      apply (intro conjI)
         apply (rule W2)
        apply (rule poll_wire_once [OF cs_high_bit])
       apply (rule poll_wire [OF poll_cs])
      apply (simp add: d)
      done
  qed
  have fail: "spi_flash_nor_write program_fail_env nor0 0x123456 (2 :: 32 word) [0xAB, 0xCD] idle_hw =
     Some (- EINVAL, poll program_fail_env 0x70 (poll program_fail_env 5
       (cs program_fail_env 4 (write_data program_fail_env [0xAB, 0xCD] 2
          (write_address program_fail_env 0x123456 (write_command program_fail_env 0x02
             (poll program_fail_env 5
                (cs program_fail_env 4 (write_command program_fail_env 6 idle_hw)))))))))"
  proof -
    let ?e = program_fail_env
    let ?s0 = "cs ?e 4 (write_command ?e 6 idle_hw)"
    let ?s1 = "poll ?e 5 ?s0"
    let ?s1' = "cs ?e 4 (write_data ?e [0xAB, 0xCD] 2
                  (write_address ?e 0x123456 (write_command ?e 0x02 ?s1)))"
    let ?s2 = "poll ?e 5 ?s1'"
    have W1: "waited ?e 50 5 1 ?s0 0 (0, ?s1)"
      by (rule waited_first) (simp add: run idle_hw_def program_fail_env_def)
    have W2: "waited ?e 50 5 1 ?s1' 0 (0, ?s2)"
      by (rule waited_first) (simp add: run idle_hw_def program_fail_env_def addr8_def upt_rec)
    have d: "fst (read_status ?e 0x70 ?s2) = 0x10"
      by (simp add: run idle_hw_def program_fail_env_def addr8_def upt_rec)
    show ?thesis
      apply (rule T)
      apply (rule exI [of _ 0], rule exI [of _ "(0, ?s1)"])
      apply (simp only: fst_conv snd_conv z if_False n v m)
      apply (intro conjI)
         apply (rule W1)
        apply (rule poll_wire_once [OF cs_high_bit])
       apply (rule A)
      apply (rule exI [of _ 0], rule exI [of _ "(0, ?s2)"])
      apply (simp only: fst_conv snd_conv z if_False)
      apply (intro conjI)
         apply (rule W2)
        apply (rule poll_wire_once [OF cs_high_bit])
       apply (rule poll_wire [OF poll_cs])
      apply (simp add: d)
      done
  qed
  have stuck: "spi_flash_nor_write stuck_env nor0 0x123456 (2 :: 32 word) [0xAB, 0xCD] idle_hw =
     Some (- ETIMEDOUT, poll stuck_env 5 (cs stuck_env 4 (write_command stuck_env 6 idle_hw)))"
  proof -
    let ?e = stuck_env
    let ?s0 = "cs ?e 4 (write_command ?e 6 idle_hw)"
    have l: "length (log ?s0) = 43" "length (log (poll ?e 5 ?s0)) = 103"
      by (simp_all add: run idle_hw_def stuck_env_def)
    have j: "jiffies ?e x = length (log x)" "msecs_to_jiffies ?e m = m" for x m
      by (simp_all add: stuck_env_def)
    have W1: "waited ?e 50 5 1 ?s0 0 (- ETIMEDOUT, poll ?e 5 ?s0)"
      by (rule waited_first) (simp_all add: read_status_stuck l j time_after_def)
    show ?thesis
      apply (rule T)
      apply (rule exI [of _ 0], rule exI [of _ "(- ETIMEDOUT, poll ?e 5 ?s0)"])
      apply (simp only: fst_conv snd_conv if_True simp_thms)
      apply (intro conjI)
       apply (rule W1)
      apply (rule poll_wire_once [OF cs_high_bit])
      done
  qed
  have programming:
    "spi_flash_nor_write programming_env nor0 0x123456 (2 :: 32 word) [0xAB, 0xCD] idle_hw =
     Some (2, poll programming_env 0x70 (poll programming_env 5 (poll programming_env 5
       (cs programming_env 4 (write_data programming_env [0xAB, 0xCD] 2
          (write_address programming_env 0x123456 (write_command programming_env 0x02
             (poll programming_env 5
                (cs programming_env 4 (write_command programming_env 6 idle_hw))))))))))"
  proof -
    let ?e = programming_env
    let ?s0 = "cs ?e 4 (write_command ?e 6 idle_hw)"
    let ?s1 = "poll ?e 5 ?s0"
    let ?s1' = "cs ?e 4 (write_data ?e [0xAB, 0xCD] 2
                  (write_address ?e 0x123456 (write_command ?e 0x02 ?s1)))"
    let ?s2 = "poll ?e 5 (poll ?e 5 ?s1')"
    have a: "fst (read_status ?e 5 ?s0) = 0"
      by (simp add: run idle_hw_def programming_env_def)
    have b: "fst (read_status ?e 5 ?s1') = 0xFF" "length (log ?s1') = 267"
      "length (log (poll ?e 5 ?s1')) = 327" "fst (read_status ?e 5 (poll ?e 5 ?s1')) = 0"
      by (simp_all add: run idle_hw_def programming_env_def addr8_def upt_rec)
    have d: "fst (read_status ?e 0x70 ?s2) = 0"
      by (simp add: run idle_hw_def programming_env_def addr8_def upt_rec)
    have j: "jiffies ?e x = length (log x) div 100" "msecs_to_jiffies ?e m = m" for x m
      by (simp_all add: programming_env_def)
    have W1: "waited ?e 50 5 1 ?s0 0 (0, ?s1)"
      by (rule waited_first) (simp add: a)
    have W2: "waited ?e 50 5 1 ?s1' (Suc 0) (0, ?s2)"
      by (rule waited_second) (simp_all add: b j time_after_def)
    show ?thesis
      apply (rule T)
      apply (rule exI [of _ 0], rule exI [of _ "(0, ?s1)"])
      apply (simp only: fst_conv snd_conv z if_False n v m)
      apply (intro conjI)
         apply (rule W1)
        apply (rule poll_wire_once [OF cs_high_bit])
       apply (rule A)
      apply (rule exI [of _ "Suc 0"], rule exI [of _ "(0, ?s2)"])
      apply (simp only: fst_conv snd_conv z if_False)
      apply (intro conjI)
         apply (rule W2)
        apply (rule poll_wire_twice [OF cs_high_bit])
       apply (rule poll_wire [OF poll_cs])
      apply (simp add: d)
      done
  qed
  have late:
    "spi_flash_nor_write program_stuck_env nor0 0x123456 (2 :: 32 word) [0xAB, 0xCD] idle_hw =
     Some (- ETIMEDOUT, poll program_stuck_env 5
       (cs program_stuck_env 4 (write_data program_stuck_env [0xAB, 0xCD] 2
          (write_address program_stuck_env 0x123456 (write_command program_stuck_env 0x02
             (poll program_stuck_env 5
                (cs program_stuck_env 4 (write_command program_stuck_env 6 idle_hw))))))))"
  proof -
    let ?e = program_stuck_env
    let ?s0 = "cs ?e 4 (write_command ?e 6 idle_hw)"
    let ?s1 = "poll ?e 5 ?s0"
    let ?s1' = "cs ?e 4 (write_data ?e [0xAB, 0xCD] 2
                  (write_address ?e 0x123456 (write_command ?e 0x02 ?s1)))"
    have a: "fst (read_status ?e 5 ?s0) = 0"
      by (simp add: run idle_hw_def program_stuck_env_def)
    have b: "fst (read_status ?e 5 ?s1') = 0xFF" "length (log ?s1') = 267"
      "length (log (poll ?e 5 ?s1')) = 327"
      by (simp_all add: run idle_hw_def program_stuck_env_def addr8_def upt_rec)
    have j: "jiffies ?e x = length (log x)" "msecs_to_jiffies ?e m = m" for x m
      by (simp_all add: program_stuck_env_def)
    have W1: "waited ?e 50 5 1 ?s0 0 (0, ?s1)"
      by (rule waited_first) (simp add: a)
    have W2: "waited ?e 50 5 1 ?s1' 0 (- ETIMEDOUT, poll ?e 5 ?s1')"
      by (rule waited_first) (simp_all add: b j time_after_def)
    show ?thesis
      apply (rule T)
      apply (rule exI [of _ 0], rule exI [of _ "(0, ?s1)"])
      apply (simp only: fst_conv snd_conv z if_False n v m)
      apply (intro conjI)
         apply (rule W1)
        apply (rule poll_wire_once [OF cs_high_bit])
       apply (rule A)
      apply (rule exI [of _ 0], rule exI [of _ "(- ETIMEDOUT, poll ?e 5 ?s1')"])
      apply (simp only: fst_conv snd_conv if_True simp_thms)
      apply (intro conjI)
       apply (rule W2)
      apply (rule poll_wire_once [OF cs_high_bit])
      done
  qed
  from h show ?thesis
    by (simp add: settle programming fail stuck late trace)
qed

text \<open>
  C3 as stated fails for a length above \<open>INT_MAX\<close>: \<open>write_data\<close> takes the length as an
  \<open>int\<close>, negative here, and sends no byte. A program of \<open>0x80000000\<close> bytes on a quiet
  device returns \<open>-2147483648\<close> with a 32-bit \<open>size_t\<close>; with a 64-bit one it returns
  2147483648 after a program transaction that carries the opcode and the address and no data.
\<close>

theorem write_length_counterexample:
  "map_option fst
     (spi_flash_nor_write quiet_env nor0 0 (0x80000000 :: 32 word) (replicate 2147483648 0) idle_hw) =
     Some (- 2147483648) \<and>
   map_option fst
     (spi_flash_nor_write quiet_env nor0 0 (0x80000000 :: 64 word) (replicate 2147483648 0) idle_hw) =
     Some 2147483648 \<and>
   map_option (wire \<circ> snd)
     (spi_flash_nor_write quiet_env nor0 0 (0x80000000 :: 64 word) (replicate 2147483648 0) idle_hw) =
     Some (txn [0x06] 0 @ txn [0x05] 1 @ txn [0x02, 0, 0, 0] 0 @ txn [0x05] 1 @ txn [0x70] 1)"
proof -
  have h: "bit (bitbang idle_hw) 2" by (simp add: idle_hw_def)
  have n: "to_int (0x80000000 :: 64 word) = - 2147483648" "wire idle_hw = []"
    "program_opcode nor0 = 2" "addr8 0 i = 0" for i
    by (simp_all add: to_int_def wire_def idle_hw_def nor0_def addr8_def)
  show ?thesis
    using write_quiet_wire [OF h, of nor0 0 "0x80000000 :: 64 word" "replicate 2147483648 0"]
    by (simp add: write_quiet n)
qed

end
